theory Spec2Isabelle
  imports Complex_Main "HOL-Library.Word"
begin

section \<open>Data model\<close>

text \<open>
  A buffer is a region of bytes addressed by its byte offset from the base pointer.
  The raster's \<open>scan0\<close> and each plane of a codec image are such regions. Offsets are
  computed in \<open>size_t\<close>; for every buffer that fits into the address space these
  computations do not wrap, so offsets are natural numbers.
\<close>

type_synonym byte = "8 word"
type_synonym buffer = "nat \<Rightarrow> byte"

text \<open>\<open>BitmapData\<close>: the caller-owned interleaved raster.\<close>

record BitmapData =
  scan0 :: buffer
  width :: nat
  height :: nat
  stride :: nat

text \<open>
  Modelled from the spec: the layout of \<open>ColorBgra\<close>, whose declaration lives in a header
  that is not part of the source tree. A pixel is four bytes in the order blue, green,
  red, alpha; the argument \<open>p\<close> is the byte offset of the pixel inside the buffer.
\<close>

definition sizeof_ColorBgra :: nat where
  "sizeof_ColorBgra = 4"

definition pixel_b :: "buffer \<Rightarrow> nat \<Rightarrow> byte" where
  "pixel_b buf p = buf p"

definition pixel_g :: "buffer \<Rightarrow> nat \<Rightarrow> byte" where
  "pixel_g buf p = buf (p + 1)"

definition pixel_r :: "buffer \<Rightarrow> nat \<Rightarrow> byte" where
  "pixel_r buf p = buf (p + 2)"

definition pixel_a :: "buffer \<Rightarrow> nat \<Rightarrow> byte" where
  "pixel_a buf p = buf (p + 3)"

text \<open>
  \<open>YUVChromaSubsampling\<close> is an \<open>enum class\<close>; a value of its underlying integer type
  that is none of the five enumerants is \<open>OtherSubsampling\<close>.
\<close>

datatype YUVChromaSubsampling =
    Subsampling400
  | Subsampling420
  | Subsampling422
  | Subsampling444
  | IdentityMatrix
  | OtherSubsampling nat

datatype YuvChannel = ChanY | ChanU | ChanV

text \<open>
  Single-precision arithmetic is a parameter of the development: a type \<open>'f\<close> of float
  values together with the operations the converter applies to them. Every theorem
  below holds for each choice of these operations, IEEE 754 binary32 among them.
  \<open>f_of_nat\<close> is the conversion of an unsigned integer (a pixel byte, a block size, an
  integer literal) to float, \<open>f_half\<close> the literal \<open>0.5f\<close>, \<open>f_to_u8\<close> the
  \<open>static_cast<uint8_t>\<close> of a float.
\<close>

record 'f float_ops =
  f_of_nat :: "nat \<Rightarrow> 'f"
  f_half :: "'f"
  f_add :: "'f \<Rightarrow> 'f \<Rightarrow> 'f"
  f_sub :: "'f \<Rightarrow> 'f \<Rightarrow> 'f"
  f_mul :: "'f \<Rightarrow> 'f \<Rightarrow> 'f"
  f_div :: "'f \<Rightarrow> 'f \<Rightarrow> 'f"
  f_less :: "'f \<Rightarrow> 'f \<Rightarrow> bool"
  f_floor :: "'f \<Rightarrow> 'f"
  f_to_u8 :: "'f \<Rightarrow> byte"

record 'f YUVCoefficiants =
  kr :: "'f"
  kg :: "'f"
  kb :: "'f"

text \<open>The fields \<open>y\<close>, \<open>u\<close>, \<open>v\<close> of \<open>YUVBlock\<close>.\<close>

record 'f YUVBlock =
  blk_y :: "'f"
  blk_u :: "'f"
  blk_v :: "'f"

section \<open>Loops\<close>

text \<open>\<open>for (i = i0; i < n; ++i) body\<close> and \<open>for (i = i0; i < n; i += 2) body\<close>.\<close>

function for_inc :: "nat \<Rightarrow> nat \<Rightarrow> (nat \<Rightarrow> 's \<Rightarrow> 's) \<Rightarrow> 's \<Rightarrow> 's" where
  "for_inc i n body s = (if i < n then for_inc (Suc i) n body (body i s) else s)"
  by pat_completeness auto
termination
  by (relation "measure (\<lambda>(i, n, body, s). n - i)") auto

function for_inc2 :: "nat \<Rightarrow> nat \<Rightarrow> (nat \<Rightarrow> 's \<Rightarrow> 's) \<Rightarrow> 's \<Rightarrow> 's" where
  "for_inc2 i n body s = (if i < n then for_inc2 (i + 2) n body (body i s) else s)"
  by pat_completeness auto
termination
  by (relation "measure (\<lambda>(i, n, body, s). n - i)") auto

declare for_inc.simps [simp del] for_inc2.simps [simp del]

section \<open>The planar converters\<close>

definition avifRoundf :: "'f float_ops \<Rightarrow> 'f \<Rightarrow> 'f" where
  "avifRoundf ops v = f_floor ops (f_add ops v (f_half ops))"

definition yuvToUNorm :: "'f float_ops \<Rightarrow> YuvChannel \<Rightarrow> 'f \<Rightarrow> byte" where
  "yuvToUNorm ops chan v =
     (let v1 = (if chan \<noteq> ChanY then f_add ops v (f_half ops) else v);
          v2 = (if f_less ops v1 (f_of_nat ops 0) then f_of_nat ops 0
                else if f_less ops (f_of_nat ops 1) v1 then f_of_nat ops 1
                else v1)
      in f_to_u8 ops (avifRoundf ops (f_mul ops v2 (f_of_nat ops 255))))"

text \<open>
  The mutable state of \<open>ColorToYUV8\<close>: the local array \<open>yuvBlock[2][2]\<close>, indexed
  \<open>[blockX][blockY]\<close>, and the three destination planes.
\<close>

record 'f conv_state =
  yuvBlock :: "nat \<times> nat \<Rightarrow> 'f YUVBlock"
  yPlane :: buffer
  uPlane :: buffer
  vPlane :: buffer

text \<open>The body of the innermost conversion loop (one pixel of the block).\<close>

definition convert_pixel ::
  "'f float_ops \<Rightarrow> 'f YUVCoefficiants \<Rightarrow> BitmapData \<Rightarrow> YUVChromaSubsampling \<Rightarrow>
   nat \<Rightarrow> nat \<Rightarrow> nat \<Rightarrow> nat \<Rightarrow> nat \<Rightarrow> nat \<Rightarrow> nat \<Rightarrow> 'f conv_state \<Rightarrow> 'f conv_state" where
  "convert_pixel ops co img yuvFormat yStride uStride vStride imageX imageY blockY blockX s =
     (let x = imageX + blockX;
          y = imageY + blockY;
          pixel = y * stride img + x * sizeof_ColorBgra;
          r = f_div ops (f_of_nat ops (unat (pixel_r (scan0 img) pixel))) (f_of_nat ops 255);
          g = f_div ops (f_of_nat ops (unat (pixel_g (scan0 img) pixel))) (f_of_nat ops 255);
          b = f_div ops (f_of_nat ops (unat (pixel_b (scan0 img) pixel))) (f_of_nat ops 255);
          Y = f_add ops (f_add ops (f_mul ops (kr co) r) (f_mul ops (kg co) g))
                (f_mul ops (kb co) b);
          blk = \<lparr> blk_y = Y,
                  blk_u = f_div ops (f_sub ops b Y)
                            (f_mul ops (f_of_nat ops 2) (f_sub ops (f_of_nat ops 1) (kb co))),
                  blk_v = f_div ops (f_sub ops r Y)
                            (f_mul ops (f_of_nat ops 2) (f_sub ops (f_of_nat ops 1) (kr co))) \<rparr>;
          s1 = s\<lparr> yuvBlock := (yuvBlock s)((blockX, blockY) := blk) \<rparr>;
          s2 = s1\<lparr> yPlane := (yPlane s1)(x + y * yStride :=
                     yuvToUNorm ops ChanY (blk_y (yuvBlock s1 (blockX, blockY)))) \<rparr>
      in if yuvFormat = Subsampling444
         then s2\<lparr> uPlane := (uPlane s2)(x + y * uStride :=
                      yuvToUNorm ops ChanU (blk_u (yuvBlock s2 (blockX, blockY)))),
                   vPlane := (vPlane s2)(x + y * vStride :=
                      yuvToUNorm ops ChanV (blk_v (yuvBlock s2 (blockX, blockY)))) \<rparr>
         else s2)"

text \<open>The running sums \<open>sumU\<close>, \<open>sumV\<close> of the averaging loops.\<close>

definition sum_step :: "'f float_ops \<Rightarrow> 'f conv_state \<Rightarrow> nat \<Rightarrow> nat \<Rightarrow> 'f \<times> 'f \<Rightarrow> 'f \<times> 'f" where
  "sum_step ops s bJ bI acc =
     (f_add ops (fst acc) (blk_u (yuvBlock s (bI, bJ))),
      f_add ops (snd acc) (blk_v (yuvBlock s (bI, bJ))))"

text \<open>The 4:2:0 branch: one averaged sample per block.\<close>

definition subsample420 ::
  "'f float_ops \<Rightarrow> nat \<Rightarrow> nat \<Rightarrow> nat \<Rightarrow> nat \<Rightarrow> nat \<Rightarrow> nat \<Rightarrow> 'f conv_state \<Rightarrow> 'f conv_state" where
  "subsample420 ops uStride vStride imageX imageY blockWidth blockHeight s =
     (let sumUV = for_inc 0 blockHeight
                   (\<lambda>bJ. for_inc 0 blockWidth (\<lambda>bI. sum_step ops s bJ bI))
                   (f_of_nat ops 0, f_of_nat ops 0);
          totalSamples = f_of_nat ops (blockWidth * blockHeight);
          avgU = f_div ops (fst sumUV) totalSamples;
          avgV = f_div ops (snd sumUV) totalSamples;
          x = imageX div 2;
          y = imageY div 2
      in s\<lparr> uPlane := (uPlane s)(x + y * uStride := yuvToUNorm ops ChanU avgU),
             vPlane := (vPlane s)(x + y * vStride := yuvToUNorm ops ChanV avgV) \<rparr>)"

text \<open>The 4:2:2 branch: one averaged sample per row of the block.\<close>

definition subsample422_row ::
  "'f float_ops \<Rightarrow> nat \<Rightarrow> nat \<Rightarrow> nat \<Rightarrow> nat \<Rightarrow> nat \<Rightarrow> nat \<Rightarrow> 'f conv_state \<Rightarrow> 'f conv_state" where
  "subsample422_row ops uStride vStride imageX imageY blockWidth blockY s =
     (let sumUV = for_inc 0 blockWidth (\<lambda>blockX. sum_step ops s blockY blockX)
                   (f_of_nat ops 0, f_of_nat ops 0);
          totalSamples = f_of_nat ops blockWidth;
          avgU = f_div ops (fst sumUV) totalSamples;
          avgV = f_div ops (snd sumUV) totalSamples;
          x = imageX div 2;
          y = imageY + blockY
      in s\<lparr> uPlane := (uPlane s)(x + y * uStride := yuvToUNorm ops ChanU avgU),
             vPlane := (vPlane s)(x + y * vStride := yuvToUNorm ops ChanV avgV) \<rparr>)"

text \<open>The body of the loop over \<open>imageX\<close>: one block.\<close>

definition convert_block ::
  "'f float_ops \<Rightarrow> 'f YUVCoefficiants \<Rightarrow> BitmapData \<Rightarrow> YUVChromaSubsampling \<Rightarrow>
   nat \<Rightarrow> nat \<Rightarrow> nat \<Rightarrow> nat \<Rightarrow> nat \<Rightarrow> 'f conv_state \<Rightarrow> 'f conv_state" where
  "convert_block ops co img yuvFormat yStride uStride vStride imageY imageX s =
     (let blockWidth = (if imageX + 1 \<ge> width img then 1 else 2);
          blockHeight = (if imageY + 1 \<ge> height img then 1 else 2);
          s1 = for_inc 0 blockHeight
                 (\<lambda>blockY. for_inc 0 blockWidth
                    (convert_pixel ops co img yuvFormat yStride uStride vStride
                       imageX imageY blockY)) s
      in if yuvFormat = Subsampling420
         then subsample420 ops uStride vStride imageX imageY blockWidth blockHeight s1
         else if yuvFormat = Subsampling422
         then for_inc 0 blockHeight
                (subsample422_row ops uStride vStride imageX imageY blockWidth) s1
         else s1)"

text \<open>
  \<open>ColorToYUV8\<close>. \<open>GetYUVCoefficiants\<close> is declared in a header outside the source
  tree and is a parameter, as is the content \<open>blk0\<close> of the uninitialised local array.
  The result is the final content of the three planes.
\<close>

definition ColorToYUV8_state ::
  "'f float_ops \<Rightarrow> ('c \<Rightarrow> 'f YUVCoefficiants) \<Rightarrow> (nat \<times> nat \<Rightarrow> 'f YUVBlock) \<Rightarrow>
   BitmapData \<Rightarrow> 'c \<Rightarrow> YUVChromaSubsampling \<Rightarrow>
   buffer \<Rightarrow> nat \<Rightarrow> buffer \<Rightarrow> nat \<Rightarrow> buffer \<Rightarrow> nat \<Rightarrow> 'f conv_state" where
  "ColorToYUV8_state ops GetYUVCoefficiants blk0 bgraImage colorInfo yuvFormat
       yP yPlaneStride uP uPlaneStride vP vPlaneStride =
     (let yuvCoefficiants = GetYUVCoefficiants colorInfo
      in for_inc2 0 (height bgraImage)
           (\<lambda>imageY. for_inc2 0 (width bgraImage)
              (convert_block ops yuvCoefficiants bgraImage yuvFormat
                 yPlaneStride uPlaneStride vPlaneStride imageY))
           \<lparr> yuvBlock = blk0, yPlane = yP, uPlane = uP, vPlane = vP \<rparr>)"

definition ColorToYUV8 ::
  "'f float_ops \<Rightarrow> ('c \<Rightarrow> 'f YUVCoefficiants) \<Rightarrow> (nat \<times> nat \<Rightarrow> 'f YUVBlock) \<Rightarrow>
   BitmapData \<Rightarrow> 'c \<Rightarrow> YUVChromaSubsampling \<Rightarrow>
   buffer \<Rightarrow> nat \<Rightarrow> buffer \<Rightarrow> nat \<Rightarrow> buffer \<Rightarrow> nat \<Rightarrow> buffer \<times> buffer \<times> buffer" where
  "ColorToYUV8 ops GetYUVCoefficiants blk0 bgraImage colorInfo yuvFormat
       yP yPlaneStride uP uPlaneStride vP vPlaneStride =
     (let s = ColorToYUV8_state ops GetYUVCoefficiants blk0 bgraImage colorInfo yuvFormat
                yP yPlaneStride uP uPlaneStride vP vPlaneStride
      in (yPlane s, uPlane s, vPlane s))"

text \<open>
  \<open>AlphaToY8\<close>. The inner loop advances the two pointers \<open>src\<close> (a byte offset into
  \<open>scan0\<close>, moving by one \<open>ColorBgra\<close>) and \<open>dst\<close> (an offset into the plane).
\<close>

definition alpha_copy_step :: "BitmapData \<Rightarrow> nat \<Rightarrow> nat \<times> nat \<times> buffer \<Rightarrow> nat \<times> nat \<times> buffer" where
  "alpha_copy_step bgraImage x st =
     (case st of (src, dst, yP) \<Rightarrow>
        (src + sizeof_ColorBgra, dst + 1, yP(dst := pixel_a (scan0 bgraImage) src)))"

definition alpha_copy_row :: "BitmapData \<Rightarrow> nat \<Rightarrow> nat \<Rightarrow> buffer \<Rightarrow> buffer" where
  "alpha_copy_row bgraImage yPlaneStride y yP =
     (let src = y * stride bgraImage;
          dst = y * yPlaneStride
      in snd (snd (for_inc 0 (width bgraImage) (alpha_copy_step bgraImage) (src, dst, yP))))"

definition AlphaToY8 :: "BitmapData \<Rightarrow> buffer \<Rightarrow> nat \<Rightarrow> buffer" where
  "AlphaToY8 bgraImage yP yPlaneStride =
     for_inc 0 (height bgraImage) (alpha_copy_row bgraImage yPlaneStride) yP"

section \<open>The codec image\<close>

text \<open>
  The codec's \<open>aom_image_t\<close>, reduced to the members this layer touches. Its planes are
  disjoint regions of one allocation, so each plane is a buffer of its own.
\<close>

datatype aom_img_fmt = AOM_IMG_FMT_I420 | AOM_IMG_FMT_I422 | AOM_IMG_FMT_I444

datatype aom_color_range = AOM_CR_STUDIO_RANGE | AOM_CR_FULL_RANGE

datatype aom_plane = AOM_PLANE_Y | AOM_PLANE_U | AOM_PLANE_V

record aom_image =
  img_fmt :: aom_img_fmt
  img_range :: aom_color_range
  img_monochrome :: int
  img_d_w :: nat
  img_d_h :: nat
  img_planes :: "aom_plane \<Rightarrow> buffer"
  img_stride :: "aom_plane \<Rightarrow> nat"

text \<open>An \<open>aom_image_t*\<close> that is not null: the address and the object it points to.\<close>

type_synonym aom_image_ptr = "nat \<times> aom_image"

text \<open>
  Modelled from the spec: the height of a chroma plane of a codec image, which the
  codec's allocator (not part of the source tree) fixes: the luma height, halved and
  rounded up on a subsampled axis.
\<close>

definition chroma_height :: "aom_img_fmt \<Rightarrow> nat \<Rightarrow> nat" where
  "chroma_height f h = (if f = AOM_IMG_FMT_I420 then (h + 1) div 2 else h)"

text \<open>\<open>memset(&buf[off], c, n)\<close>.\<close>

definition memset :: "buffer \<Rightarrow> nat \<Rightarrow> byte \<Rightarrow> nat \<Rightarrow> buffer" where
  "memset buf off c n = (\<lambda>k. if off \<le> k \<and> k < off + n then c else buf k)"

section \<open>The orchestrator\<close>

datatype EncoderStatus =
    Ok
  | NullParameter
  | OutOfMemory
  | UnknownYUVFormat
  | UserCancelled
  | CodecStatus nat

record EncoderOptions =
  yuvFormat :: YUVChromaSubsampling

record ProgressContext =
  progressCallback :: "32 word \<Rightarrow> 32 word \<Rightarrow> bool"
  progressDone :: "32 word"
  progressTotal :: "32 word"

text \<open>
  The trace of a call: every invocation of a collaborator (the progress callback, the
  codec's image allocator and deallocator, the codec itself) and every run of a
  converter, in order. An allocation records the pointer it returned, \<open>None\<close> for a null
  pointer.
\<close>

datatype event =
    EvProgress "32 word" "32 word"
  | EvImgAlloc aom_img_fmt nat nat nat "nat option"
  | EvImgFree nat
  | EvColorToYUV8
  | EvAlphaToY8
  | EvCompressAOMImages

text \<open>
  The collaborators, none of which is part of the source tree: float arithmetic, the
  coefficient lookup, the content of uninitialised stack memory, the codec's
  \<open>aom_img_alloc\<close> (it may fail, and what it returns may depend on everything that
  happened before), and \<open>CompressAOMImages\<close>, which returns a status, the progress
  context as it leaves it and the compressed output.
\<close>

record ('f, 'c, 'a, 'p, 'r) externals =
  flops :: "'f float_ops"
  GetYUVCoefficiants :: "'c \<Rightarrow> 'f YUVCoefficiants"
  stack0 :: "nat \<times> nat \<Rightarrow> 'f YUVBlock"
  aom_img_alloc :: "event list \<Rightarrow> aom_img_fmt \<Rightarrow> nat \<Rightarrow> nat \<Rightarrow> nat \<Rightarrow> aom_image_ptr option"
  CompressAOMImages ::
    "aom_image_ptr \<Rightarrow> aom_image_ptr option \<Rightarrow> EncoderOptions \<Rightarrow> ProgressContext \<Rightarrow>
     'a \<Rightarrow> 'p \<Rightarrow> 'p option \<Rightarrow> EncoderStatus \<times> ProgressContext \<times> 'r"

text \<open>What a call leaves behind: its status, the progress context, the output, the trace.\<close>

record 'r outcome =
  status :: EncoderStatus
  progress_after :: "ProgressContext option"
  compressed :: "'r option"
  trace :: "event list"

definition ConvertColorToAOMImage ::
  "('f, 'c, 'a, 'p, 'r) externals \<Rightarrow> BitmapData \<Rightarrow> 'c \<Rightarrow> YUVChromaSubsampling \<Rightarrow>
   aom_img_fmt \<Rightarrow> event list \<Rightarrow> aom_image_ptr option \<times> event list" where
  "ConvertColorToAOMImage env bgraImage colorInfo yuvFmt aomFormat tr =
     (case aom_img_alloc env tr aomFormat (width bgraImage) (height bgraImage) 16 of
        None \<Rightarrow>
          (None, tr @ [EvImgAlloc aomFormat (width bgraImage) (height bgraImage) 16 None])
      | Some (p, aomImage) \<Rightarrow>
          (let tr1 = tr @ [EvImgAlloc aomFormat (width bgraImage) (height bgraImage) 16 (Some p)];
               im = aomImage\<lparr> img_range := AOM_CR_FULL_RANGE \<rparr>;
               yuv = ColorToYUV8 (flops env) (GetYUVCoefficiants env) (stack0 env)
                       bgraImage colorInfo yuvFmt
                       (img_planes im AOM_PLANE_Y) (img_stride im AOM_PLANE_Y)
                       (img_planes im AOM_PLANE_U) (img_stride im AOM_PLANE_U)
                       (img_planes im AOM_PLANE_V) (img_stride im AOM_PLANE_V)
           in (Some (p, im\<lparr> img_planes := (img_planes im)
                                (AOM_PLANE_Y := fst yuv,
                                 AOM_PLANE_U := fst (snd yuv),
                                 AOM_PLANE_V := snd (snd yuv)) \<rparr>),
               tr1 @ [EvColorToYUV8])))"

text \<open>
  The body of the zeroing loop of \<open>ConvertAlphaToAOMImage\<close>. The row offset
  \<open>y * stride\<close> is a product of a \<open>uint32_t\<close> and an \<open>int\<close>, computed modulo \<open>2 ^ 32\<close>.
\<close>

definition zero_chroma_row :: "nat \<Rightarrow> aom_image \<Rightarrow> aom_image" where
  "zero_chroma_row y im =
     (let im1 = im\<lparr> img_planes := (img_planes im)(AOM_PLANE_U :=
                   memset (img_planes im AOM_PLANE_U)
                     ((y * img_stride im AOM_PLANE_U) mod 2 ^ 32) 0
                     (img_stride im AOM_PLANE_U)) \<rparr>
      in im1\<lparr> img_planes := (img_planes im1)(AOM_PLANE_V :=
                   memset (img_planes im1 AOM_PLANE_V)
                     ((y * img_stride im1 AOM_PLANE_V) mod 2 ^ 32) 0
                     (img_stride im1 AOM_PLANE_V)) \<rparr>)"

definition ConvertAlphaToAOMImage ::
  "('f, 'c, 'a, 'p, 'r) externals \<Rightarrow> BitmapData \<Rightarrow> event list \<Rightarrow>
   aom_image_ptr option \<times> event list" where
  "ConvertAlphaToAOMImage env bgraImage tr =
     (let aomFormat = AOM_IMG_FMT_I420
      in case aom_img_alloc env tr aomFormat (width bgraImage) (height bgraImage) 16 of
        None \<Rightarrow>
          (None, tr @ [EvImgAlloc aomFormat (width bgraImage) (height bgraImage) 16 None])
      | Some (p, aomImage) \<Rightarrow>
          (let tr1 = tr @ [EvImgAlloc aomFormat (width bgraImage) (height bgraImage) 16 (Some p)];
               im = aomImage\<lparr> img_range := AOM_CR_FULL_RANGE, img_monochrome := 1 \<rparr>;
               im1 = im\<lparr> img_planes := (img_planes im)(AOM_PLANE_Y :=
                        AlphaToY8 bgraImage (img_planes im AOM_PLANE_Y)
                          (img_stride im AOM_PLANE_Y)) \<rparr>;
               uvHeight = height bgraImage div 2
           in (Some (p, for_inc 0 uvHeight zero_chroma_row im1), tr1 @ [EvAlphaToY8])))"

text \<open>
  \<open>aom_image_deleter\<close>, which the scoped pointer \<open>ScopedAOMImage\<close> runs when it goes out
  of scope.
\<close>

definition aom_image_deleter :: "aom_image_ptr option \<Rightarrow> event list \<Rightarrow> event list" where
  "aom_image_deleter img tr =
     (case img of None \<Rightarrow> tr | Some (p, im) \<Rightarrow> tr @ [EvImgFree p])"

text \<open>The \<open>switch\<close> of \<open>CompressWithAOM\<close>; \<open>None\<close> is its \<open>default\<close> arm.\<close>

fun aom_format_of :: "YUVChromaSubsampling \<Rightarrow> aom_img_fmt option" where
  "aom_format_of Subsampling400 = Some AOM_IMG_FMT_I420"
| "aom_format_of Subsampling420 = Some AOM_IMG_FMT_I420"
| "aom_format_of Subsampling422 = Some AOM_IMG_FMT_I422"
| "aom_format_of Subsampling444 = Some AOM_IMG_FMT_I444"
| "aom_format_of IdentityMatrix = Some AOM_IMG_FMT_I444"
| "aom_format_of (OtherSubsampling n) = None"

text \<open>
  \<open>CompressWithAOM\<close>. Its pointer arguments are not null (the caller has checked them),
  except \<open>compressedAlphaImage\<close>. The scoped pointers \<open>alpha\<close> and \<open>color\<close> are released,
  in this order, on every path that leaves their scope.
\<close>

definition CompressWithAOM ::
  "('f, 'c, 'a, 'p, 'r) externals \<Rightarrow> BitmapData \<Rightarrow> EncoderOptions \<Rightarrow> ProgressContext \<Rightarrow>
   'c \<Rightarrow> 'a \<Rightarrow> 'p \<Rightarrow> 'p option \<Rightarrow> event list \<Rightarrow> 'r outcome" where
  "CompressWithAOM env img encodeOptions progressContext colorInfo outputAllocator
       compressedColorImage compressedAlphaImage tr =
     (let yuvFmt = yuvFormat encodeOptions
      in case aom_format_of yuvFmt of
        None \<Rightarrow>
          \<lparr> status = UnknownYUVFormat, progress_after = Some progressContext,
            compressed = None, trace = tr \<rparr>
      | Some aomFormat \<Rightarrow>
          (case ConvertColorToAOMImage env img colorInfo yuvFmt aomFormat tr of
             (color, tr1) \<Rightarrow>
               (case color of
                  None \<Rightarrow>
                    \<lparr> status = OutOfMemory, progress_after = Some progressContext,
                      compressed = None, trace = aom_image_deleter color tr1 \<rparr>
                | Some colorImage \<Rightarrow>
                    (case (case compressedAlphaImage of
                             None \<Rightarrow> (None, tr1)
                           | Some q \<Rightarrow> ConvertAlphaToAOMImage env img tr1) of
                       (alpha, tr2) \<Rightarrow>
                         if compressedAlphaImage \<noteq> None \<and> alpha = None
                         then \<lparr> status = OutOfMemory, progress_after = Some progressContext,
                                compressed = None,
                                trace = aom_image_deleter color (aom_image_deleter alpha tr2) \<rparr>
                         else (case CompressAOMImages env colorImage alpha encodeOptions
                                      progressContext outputAllocator compressedColorImage
                                      compressedAlphaImage of
                                 (st, pc, out) \<Rightarrow>
                                   \<lparr> status = st, progress_after = Some pc,
                                     compressed = Some out,
                                     trace = aom_image_deleter color
                                       (aom_image_deleter alpha
                                          (tr2 @ [EvCompressAOMImages])) \<rparr>)))))"

text \<open>
  \<open>CompressImage\<close>, the entry point. A pointer argument is \<open>None\<close> when it is null;
  \<open>colorInfo\<close> is a reference; the argument \<open>image\<close> is written \<open>img\<close>. \<open>++progressContext->progressDone\<close> wraps at 32 bits.
\<close>

definition CompressImage ::
  "('f, 'c, 'a, 'p, 'r) externals \<Rightarrow> BitmapData option \<Rightarrow> EncoderOptions option \<Rightarrow>
   ProgressContext option \<Rightarrow> 'c \<Rightarrow> 'a option \<Rightarrow> 'p option \<Rightarrow> 'p option \<Rightarrow>
   event list \<Rightarrow> 'r outcome" where
  "CompressImage env img encodeOptions progressContext colorInfo outputAllocator
       compressedColorImage compressedAlphaImage tr =
     (case (img, encodeOptions, progressContext, outputAllocator, compressedColorImage) of
        (Some im, Some opts, Some pc, Some alloc, Some cc) \<Rightarrow>
          (let pc1 = pc\<lparr> progressDone := progressDone pc + 1 \<rparr>;
               tr1 = tr @ [EvProgress (progressDone pc1) (progressTotal pc1)]
           in if \<not> progressCallback pc1 (progressDone pc1) (progressTotal pc1)
              then \<lparr> status = UserCancelled, progress_after = Some pc1,
                     compressed = None, trace = tr1 \<rparr>
              else CompressWithAOM env im opts pc1 colorInfo alloc cc
                     compressedAlphaImage tr1)
      | _ \<Rightarrow>
          \<lparr> status = NullParameter, progress_after = progressContext,
            compressed = None, trace = tr \<rparr>)"

section \<open>Specification functions\<close>

text \<open>The number of successful image allocations and of deallocations in a trace.\<close>

fun count_allocs :: "event list \<Rightarrow> nat" where
  "count_allocs [] = 0"
| "count_allocs (EvImgAlloc f w h a (Some p) # tr) = Suc (count_allocs tr)"
| "count_allocs (e # tr) = count_allocs tr"

fun count_frees :: "event list \<Rightarrow> nat" where
  "count_frees [] = 0"
| "count_frees (EvImgFree p # tr) = Suc (count_frees tr)"
| "count_frees (e # tr) = count_frees tr"

text \<open>
  The float triple the converter computes for the pixel in column \<open>x\<close> of row \<open>y\<close>: the
  value it stores into \<open>yuvBlock\<close>.
\<close>

definition pixel_yuv ::
  "'f float_ops \<Rightarrow> 'f YUVCoefficiants \<Rightarrow> BitmapData \<Rightarrow> nat \<Rightarrow> nat \<Rightarrow> 'f YUVBlock" where
  "pixel_yuv ops co img x y =
     (let pixel = y * stride img + x * sizeof_ColorBgra;
          r = f_div ops (f_of_nat ops (unat (pixel_r (scan0 img) pixel))) (f_of_nat ops 255);
          g = f_div ops (f_of_nat ops (unat (pixel_g (scan0 img) pixel))) (f_of_nat ops 255);
          b = f_div ops (f_of_nat ops (unat (pixel_b (scan0 img) pixel))) (f_of_nat ops 255);
          Y = f_add ops (f_add ops (f_mul ops (kr co) r) (f_mul ops (kg co) g))
                (f_mul ops (kb co) b)
      in \<lparr> blk_y = Y,
           blk_u = f_div ops (f_sub ops b Y)
                     (f_mul ops (f_of_nat ops 2) (f_sub ops (f_of_nat ops 1) (kb co))),
           blk_v = f_div ops (f_sub ops r Y)
                     (f_mul ops (f_of_nat ops 2) (f_sub ops (f_of_nat ops 1) (kr co))) \<rparr>)"

text \<open>
  The extent of a block along an axis of length \<open>n\<close>, for the block that starts at \<open>i\<close>:
  the number of samples of the raster the block holds on that axis.
\<close>

definition block_extent :: "nat \<Rightarrow> nat \<Rightarrow> nat" where
  "block_extent n i = (if i + 1 \<ge> n then 1 else 2)"

text \<open>
  The chroma sums of the pixels \<open>(x0 + bI, y0 + bJ)\<close>, \<open>bI < bw\<close>, \<open>bJ < bh\<close>, added up from
  zero row by row, left to right: first component \<open>U\<close>, second \<open>V\<close>.
\<close>

definition chroma_sums ::
  "'f float_ops \<Rightarrow> 'f YUVCoefficiants \<Rightarrow> BitmapData \<Rightarrow> nat \<Rightarrow> nat \<Rightarrow> nat \<Rightarrow> nat \<Rightarrow> 'f \<times> 'f" where
  "chroma_sums ops co img x0 y0 bw bh =
     for_inc 0 bh
       (\<lambda>bJ. for_inc 0 bw
          (\<lambda>bI acc. (f_add ops (fst acc) (blk_u (pixel_yuv ops co img (x0 + bI) (y0 + bJ))),
                      f_add ops (snd acc) (blk_v (pixel_yuv ops co img (x0 + bI) (y0 + bJ))))))
       (f_of_nat ops 0, f_of_nat ops 0)"

text \<open>
  Two rasters of the same geometry; two rasters whose pixels agree in the blue, green and
  red byte; two rasters whose pixels agree in the alpha byte.
\<close>

definition same_geometry :: "BitmapData \<Rightarrow> BitmapData \<Rightarrow> bool" where
  "same_geometry img1 img2 =
     (width img2 = width img1 \<and> height img2 = height img1 \<and> stride img2 = stride img1)"

definition same_color :: "BitmapData \<Rightarrow> BitmapData \<Rightarrow> bool" where
  "same_color img1 img2 =
     (\<forall>y \<in> {0..<height img1}. \<forall>x \<in> {0..<width img1}.
        pixel_b (scan0 img2) (y * stride img1 + x * sizeof_ColorBgra) =
          pixel_b (scan0 img1) (y * stride img1 + x * sizeof_ColorBgra) \<and>
        pixel_g (scan0 img2) (y * stride img1 + x * sizeof_ColorBgra) =
          pixel_g (scan0 img1) (y * stride img1 + x * sizeof_ColorBgra) \<and>
        pixel_r (scan0 img2) (y * stride img1 + x * sizeof_ColorBgra) =
          pixel_r (scan0 img1) (y * stride img1 + x * sizeof_ColorBgra))"

definition same_alpha :: "BitmapData \<Rightarrow> BitmapData \<Rightarrow> bool" where
  "same_alpha img1 img2 =
     (\<forall>y \<in> {0..<height img1}. \<forall>x \<in> {0..<width img1}.
        pixel_a (scan0 img2) (y * stride img1 + x * sizeof_ColorBgra) =
          pixel_a (scan0 img1) (y * stride img1 + x * sizeof_ColorBgra))"

text \<open>
  The chroma sample of the block that starts at \<open>(iX, iY)\<close> under 4:2:0, and of the row
  \<open>y\<close> of the block column that starts at \<open>iX\<close> under 4:2:2: the chroma sum divided by
  the number of samples that went into it, quantised.
\<close>

definition sample420 ::
  "'f float_ops \<Rightarrow> 'f YUVCoefficiants \<Rightarrow> BitmapData \<Rightarrow> YuvChannel \<Rightarrow> nat \<Rightarrow> nat \<Rightarrow> byte" where
  "sample420 ops co img chan iX iY =
     (let bw = block_extent (width img) iX; bh = block_extent (height img) iY;
          sumUV = chroma_sums ops co img iX iY bw bh
      in yuvToUNorm ops chan
           (f_div ops (if chan = ChanU then fst sumUV else snd sumUV) (f_of_nat ops (bw * bh))))"

definition sample422 ::
  "'f float_ops \<Rightarrow> 'f YUVCoefficiants \<Rightarrow> BitmapData \<Rightarrow> YuvChannel \<Rightarrow> nat \<Rightarrow> nat \<Rightarrow> byte" where
  "sample422 ops co img chan iX y =
     (let bw = block_extent (width img) iX;
          sumUV = chroma_sums ops co img iX y bw 1
      in yuvToUNorm ops chan
           (f_div ops (if chan = ChanU then fst sumUV else snd sumUV) (f_of_nat ops bw)))"

text \<open>
  Adding the float \<open>a\<close> to zero and dividing it by one give \<open>a\<close> back. In IEEE 754
  arithmetic this holds for every value but negative zero.
\<close>

definition exact_at :: "'f float_ops \<Rightarrow> 'f \<Rightarrow> bool" where
  "exact_at ops a = (f_add ops (f_of_nat ops 0) a = a \<and> f_div ops a (f_of_nat ops 1) = a)"

section \<open>Test doubles\<close>

text \<open>
  An instance of the float operations with exact rational arithmetic, the BT.601
  coefficients, and collaborators for running the orchestrator on concrete inputs: an
  image allocator that hands out images whose planes hold the byte \<open>0xAA\<close> everywhere
  (memory that nobody has initialised), one that fails from the second allocation on,
  and a codec that reports success.
\<close>

definition exact_ops :: "rat float_ops" where
  "exact_ops =
     \<lparr> f_of_nat = of_nat, f_half = 1 / 2,
       f_add = (\<lambda>a b. a + b), f_sub = (\<lambda>a b. a - b),
       f_mul = (\<lambda>a b. a * b), f_div = (\<lambda>a b. a / b),
       f_less = (\<lambda>a b. a < b),
       f_floor = (\<lambda>q. of_int \<lfloor>q\<rfloor>),
       f_to_u8 = (\<lambda>q. word_of_int \<lfloor>q\<rfloor>) \<rparr>"

definition bt601 :: "unit \<Rightarrow> rat YUVCoefficiants" where
  "bt601 c = \<lparr> kr = 299 / 1000, kg = 587 / 1000, kb = 114 / 1000 \<rparr>"

definition blank_image :: "aom_img_fmt \<Rightarrow> nat \<Rightarrow> nat \<Rightarrow> aom_image" where
  "blank_image f w h =
     \<lparr> img_fmt = f, img_range = AOM_CR_STUDIO_RANGE, img_monochrome = 0,
       img_d_w = w, img_d_h = h,
       img_planes = (\<lambda>pl k. 0xAA),
       img_stride = (\<lambda>pl. 16 * ((w + 15) div 16)) \<rparr>"

definition alloc_ok :: "event list \<Rightarrow> aom_img_fmt \<Rightarrow> nat \<Rightarrow> nat \<Rightarrow> nat \<Rightarrow> aom_image_ptr option" where
  "alloc_ok tr f w h a = Some (4096 * Suc (length tr), blank_image f w h)"

definition alloc_once :: "event list \<Rightarrow> aom_img_fmt \<Rightarrow> nat \<Rightarrow> nat \<Rightarrow> nat \<Rightarrow> aom_image_ptr option" where
  "alloc_once tr f w h a = (if count_allocs tr = 0 then alloc_ok tr f w h a else None)"

definition codec_ok ::
  "aom_image_ptr \<Rightarrow> aom_image_ptr option \<Rightarrow> EncoderOptions \<Rightarrow> ProgressContext \<Rightarrow>
   unit \<Rightarrow> unit \<Rightarrow> unit option \<Rightarrow> EncoderStatus \<times> ProgressContext \<times> unit" where
  "codec_ok color alpha opts pc alloc cc ca = (Ok, pc, ())"

definition env_ok :: "(rat, unit, unit, unit, unit) externals" where
  "env_ok = \<lparr> flops = exact_ops, GetYUVCoefficiants = bt601,
              stack0 = (\<lambda>i. \<lparr> blk_y = 0, blk_u = 0, blk_v = 0 \<rparr>),
              aom_img_alloc = alloc_ok, CompressAOMImages = codec_ok \<rparr>"

definition env_once :: "(rat, unit, unit, unit, unit) externals" where
  "env_once = env_ok\<lparr> aom_img_alloc := alloc_once \<rparr>"

text \<open>
  A raster of one pixel and one of three by three pixels over the same memory, whose
  byte at offset \<open>k\<close> is \<open>7 * k + 3\<close> (modulo 256).
\<close>

definition img1x1 :: BitmapData where
  "img1x1 = \<lparr> scan0 = (\<lambda>k. of_nat (7 * k + 3)), width = 1, height = 1, stride = 4 \<rparr>"

definition img3x3 :: BitmapData where
  "img3x3 = \<lparr> scan0 = (\<lambda>k. of_nat (7 * k + 3)), width = 3, height = 3, stride = 12 \<rparr>"

text \<open>
  The three by three raster with every alpha byte replaced by \<open>255\<close>, and with every
  color byte replaced by \<open>0\<close>.
\<close>

definition img3x3_opaque :: BitmapData where
  "img3x3_opaque = img3x3\<lparr> scan0 := (\<lambda>k. if k mod 4 = 3 then 255 else scan0 img3x3 k) \<rparr>"

definition img3x3_black :: BitmapData where
  "img3x3_black = img3x3\<lparr> scan0 := (\<lambda>k. if k mod 4 = 3 then scan0 img3x3 k else 0) \<rparr>"

definition zero_block :: "nat \<times> nat \<Rightarrow> rat YUVBlock" where
  "zero_block i = \<lparr> blk_y = 0, blk_u = 0, blk_v = 0 \<rparr>"

definition zero_buffer :: buffer where
  "zero_buffer k = 0"

definition pc_continue :: ProgressContext where
  "pc_continue = \<lparr> progressCallback = (\<lambda>d t. True), progressDone = 0, progressTotal = 2 \<rparr>"

definition pc_cancel :: ProgressContext where
  "pc_cancel = \<lparr> progressCallback = (\<lambda>d t. False), progressDone = 0, progressTotal = 2 \<rparr>"

section \<open>Loop rules\<close>

text \<open>
  A relation between the states of two loops over the same range that every pair of
  iterations preserves holds between the final states; with one loop, this is the
  invariant rule.
\<close>

lemma for_inc_rel:
  assumes "R i s t"
    and "\<And>j a b. i \<le> j \<Longrightarrow> j < n \<Longrightarrow> R j a b \<Longrightarrow> R (Suc j) (f j a) (g j b)"
  shows "R (max i n) (for_inc i n f s) (for_inc i n g t)"
  using assms
proof (induction i n f s arbitrary: t rule: for_inc.induct)
  case (1 i n body s)
  show ?case
  proof (cases "i < n")
    case True
    have step: "R (Suc i) (body i s) (g i t)"
      using "1.prems" True by simp
    have "R (max (Suc i) n) (for_inc (Suc i) n body (body i s)) (for_inc (Suc i) n g (g i t))"
      using "1.IH" [OF True step] "1.prems"(2) by simp
    moreover have "max (Suc i) n = max i n" using True by simp
    ultimately show ?thesis
      using True by (simp add: for_inc.simps [of i])
  next
    case False
    then show ?thesis using "1.prems"(1) by (simp add: for_inc.simps [of i] max_def)
  qed
qed

lemma for_inc_invariant:
  assumes "P i s"
    and "\<And>j a. i \<le> j \<Longrightarrow> j < n \<Longrightarrow> P j a \<Longrightarrow> P (Suc j) (body j a)"
  shows "P (max i n) (for_inc i n body s)"
  using for_inc_rel [where R = "\<lambda>j a b. P j a" and f = body and g = body and s = s
      and t = s and i = i and n = n] assms
  by blast

text \<open>A loop that steps by two runs its body at the even indices below the bound.\<close>

lemma for_inc2_as_for_inc:
  "for_inc2 (2 * i) n body s = for_inc i ((n + 1) div 2) (\<lambda>k. body (2 * k)) s"
proof (induction i "(n + 1) div 2" "\<lambda>k. body (2 * k)" s rule: for_inc.induct)
  case (1 i s)
  show ?case
  proof (cases "2 * i < n")
    case True
    then have lt: "i < (n + 1) div 2" by arith
    have "for_inc2 (2 * Suc i) n body (body (2 * i) s) =
          for_inc (Suc i) ((n + 1) div 2) (\<lambda>k. body (2 * k)) (body (2 * i) s)"
      using "1.hyps" [OF lt] .
    then show ?thesis
      using True lt by (simp add: for_inc.simps [of i] for_inc2.simps [of "2 * i"])
  next
    case False
    then have "\<not> i < (n + 1) div 2" by arith
    then show ?thesis
      using False by (simp add: for_inc.simps [of i] for_inc2.simps [of "2 * i"])
  qed
qed

lemma for_inc2_0: "for_inc2 0 n body s = for_inc 0 ((n + 1) div 2) (\<lambda>k. body (2 * k)) s"
  using for_inc2_as_for_inc [of 0 n body s] by simp

lemma for_inc_0_1: "for_inc 0 (Suc 0) body s = body 0 s"
  by (simp add: for_inc.simps [of 0] for_inc.simps [of "Suc 0"])

lemma for_inc_0_2: "for_inc 0 2 body s = body (Suc 0) (body 0 s)"
  by (simp add: for_inc.simps [of 0] for_inc.simps [of "Suc 0"]
      for_inc.simps [of "Suc (Suc 0)"] numeral_2_eq_2)

section \<open>The orchestrator: status codes and resources\<close>

lemma count_allocs_append: "count_allocs (xs @ ys) = count_allocs xs + count_allocs ys"
  by (induction xs rule: count_allocs.induct) simp_all

lemma count_frees_append: "count_frees (xs @ ys) = count_frees xs + count_frees ys"
  by (induction xs rule: count_frees.induct) simp_all




text \<open>
  Claim C6. When all required arguments of \<open>CompressImage\<close> are present and the progress
  callback answers \<open>false\<close> to its first invocation, the call returns \<open>UserCancelled\<close>;
  the trace of the call holds the invocation of the callback and nothing else: no image
  is allocated, no converter runs and the codec is not invoked.
\<close>

theorem cancel_before_any_work:
  assumes "\<not> progressCallback pc (progressDone pc + 1) (progressTotal pc)"
  shows "CompressImage env (Some im) (Some opts) (Some pc) colorInfo (Some alloc) (Some cc)
           compressedAlphaImage tr =
         \<lparr> status = UserCancelled,
           progress_after = Some (pc\<lparr> progressDone := progressDone pc + 1 \<rparr>),
           compressed = None,
           trace = tr @ [EvProgress (progressDone pc + 1) (progressTotal pc)] \<rparr>"
  using assms by (simp add: CompressImage_def Let_def)

theorem cancel_before_any_work_witness:
  "CompressImage env_ok (Some img1x1) (Some \<lparr> yuvFormat = Subsampling420 \<rparr>) (Some pc_cancel) ()
       (Some ()) (Some ()) (Some ()) [] =
     \<lparr> status = UserCancelled, progress_after = Some (pc_cancel\<lparr> progressDone := 1 \<rparr>),
       compressed = None, trace = [EvProgress 1 2] \<rparr>"
  using cancel_before_any_work [of pc_cancel env_ok img1x1 "\<lparr> yuvFormat = Subsampling420 \<rparr>"
      "()" "()" "()" "Some ()" "[]"]
  by (simp add: pc_cancel_def)



text \<open>
  Claim C8. When the subsampling mode of the encode options is none of 4:0:0, 4:2:0,
  4:2:2, 4:4:4 and identity-matrix, \<open>CompressWithAOM\<close> returns \<open>UnknownYUVFormat\<close> with
  the trace as it found it, so before any image allocation is attempted; and so does
  \<open>CompressImage\<close> once the progress callback has let the call continue.
\<close>

theorem unknown_format_before_allocation:
  assumes "yuvFormat opts \<noteq> Subsampling400" and "yuvFormat opts \<noteq> Subsampling420"
    and "yuvFormat opts \<noteq> Subsampling422" and "yuvFormat opts \<noteq> Subsampling444"
    and "yuvFormat opts \<noteq> IdentityMatrix"
  shows "CompressWithAOM env im opts pc colorInfo alloc cc compressedAlphaImage tr =
           \<lparr> status = UnknownYUVFormat, progress_after = Some pc, compressed = None,
             trace = tr \<rparr>
         \<and> (progressCallback pc0 (progressDone pc0 + 1) (progressTotal pc0) \<longrightarrow>
              CompressImage env (Some im) (Some opts) (Some pc0) colorInfo (Some alloc) (Some cc)
                  compressedAlphaImage tr =
                \<lparr> status = UnknownYUVFormat,
                  progress_after = Some (pc0\<lparr> progressDone := progressDone pc0 + 1 \<rparr>),
                  compressed = None,
                  trace = tr @ [EvProgress (progressDone pc0 + 1) (progressTotal pc0)] \<rparr>)"
proof -
  have "aom_format_of (yuvFormat opts) = None"
    using assms by (cases "yuvFormat opts") simp_all
  then show ?thesis
    by (simp add: CompressWithAOM_def CompressImage_def Let_def)
qed

theorem unknown_format_before_allocation_witness:
  "CompressWithAOM env_ok img1x1 \<lparr> yuvFormat = OtherSubsampling 7 \<rparr> pc_continue () () ()
       (Some ()) [] =
     \<lparr> status = UnknownYUVFormat, progress_after = Some pc_continue, compressed = None,
       trace = [] \<rparr>
   \<and> CompressImage env_ok (Some img1x1) (Some \<lparr> yuvFormat = OtherSubsampling 7 \<rparr>)
       (Some pc_continue) () (Some ()) (Some ()) (Some ()) [] =
     \<lparr> status = UnknownYUVFormat, progress_after = Some (pc_continue\<lparr> progressDone := 1 \<rparr>),
       compressed = None, trace = [EvProgress 1 2] \<rparr>"
  using unknown_format_before_allocation [of "\<lparr> yuvFormat = OtherSubsampling 7 \<rparr>" env_ok
      img1x1 pc_continue "()" "()" "()" "Some ()" "[]" pc_continue]
  by (simp add: pc_continue_def)

text \<open>
  Claim C9. When the subsampling mode is a known one, the allocation of the color image
  succeeds and the allocation of the alpha image, which follows it, fails, then
  \<open>CompressWithAOM\<close> returns \<open>OutOfMemory\<close>, and the last event before it returns is the
  release of the color image: the trace grows by the successful allocation, the color
  conversion, the failed allocation and the deallocation of the pointer that the first
  allocation returned, so the call adds one allocation and one deallocation.
\<close>

theorem color_image_released_on_alpha_failure:
  assumes fmt: "aom_format_of (yuvFormat opts) = Some f"
    and color: "aom_img_alloc env tr f (width im) (height im) 16 = Some (p, colorImage)"
    and alpha: "aom_img_alloc env
                  (tr @ [EvImgAlloc f (width im) (height im) 16 (Some p), EvColorToYUV8])
                  AOM_IMG_FMT_I420 (width im) (height im) 16 = None"
  shows "status (CompressWithAOM env im opts pc colorInfo alloc cc (Some q) tr) = OutOfMemory
         \<and> trace (CompressWithAOM env im opts pc colorInfo alloc cc (Some q) tr) =
             tr @ [EvImgAlloc f (width im) (height im) 16 (Some p), EvColorToYUV8,
                   EvImgAlloc AOM_IMG_FMT_I420 (width im) (height im) 16 None, EvImgFree p]
         \<and> count_allocs (trace (CompressWithAOM env im opts pc colorInfo alloc cc (Some q) tr))
             = count_allocs tr + 1
         \<and> count_frees (trace (CompressWithAOM env im opts pc colorInfo alloc cc (Some q) tr))
             = count_frees tr + 1"
  using assms
  by (simp add: CompressWithAOM_def ConvertColorToAOMImage_def ConvertAlphaToAOMImage_def
      aom_image_deleter_def Let_def count_allocs_append count_frees_append)

theorem color_image_released_on_alpha_failure_witness:
  "status (CompressWithAOM env_once img1x1 \<lparr> yuvFormat = Subsampling420 \<rparr> pc_continue () () ()
       (Some ()) []) = OutOfMemory
   \<and> trace (CompressWithAOM env_once img1x1 \<lparr> yuvFormat = Subsampling420 \<rparr> pc_continue () () ()
       (Some ()) []) =
       [EvImgAlloc AOM_IMG_FMT_I420 1 1 16 (Some 4096), EvColorToYUV8,
        EvImgAlloc AOM_IMG_FMT_I420 1 1 16 None, EvImgFree 4096]
   \<and> count_allocs (trace (CompressWithAOM env_once img1x1 \<lparr> yuvFormat = Subsampling420 \<rparr>
       pc_continue () () () (Some ()) [])) = 1
   \<and> count_frees (trace (CompressWithAOM env_once img1x1 \<lparr> yuvFormat = Subsampling420 \<rparr>
       pc_continue () () () (Some ()) [])) = 1"
  using color_image_released_on_alpha_failure [of "\<lparr> yuvFormat = Subsampling420 \<rparr>"
      AOM_IMG_FMT_I420 env_once "[]" img1x1 4096 "blank_image AOM_IMG_FMT_I420 1 1"
      pc_continue "()" "()" "()" "()"]
  by (simp add: env_once_def env_ok_def alloc_once_def alloc_ok_def img1x1_def)

section \<open>The color converter\<close>

text \<open>Loop rules whose relation or invariant does not mention the loop index.\<close>

lemma for_inc_rel_simple:
  assumes "R s t"
    and "\<And>j a b. i \<le> j \<Longrightarrow> j < n \<Longrightarrow> R a b \<Longrightarrow> R (f j a) (g j b)"
  shows "R (for_inc i n f s) (for_inc i n g t)"
  using for_inc_rel [where R = "\<lambda>j. R" and f = f and g = g and s = s and t = t and i = i and n = n]
    assms by blast

lemma for_inc_inv_simple:
  assumes "P s"
    and "\<And>j a. i \<le> j \<Longrightarrow> j < n \<Longrightarrow> P a \<Longrightarrow> P (body j a)"
  shows "P (for_inc i n body s)"
  using for_inc_invariant [where P = "\<lambda>j. P" and body = body and s = s and i = i and n = n]
    assms by blast

lemma for_inc_cong_range:
  assumes "\<And>j a. i \<le> j \<Longrightarrow> j < n \<Longrightarrow> f j a = g j a"
  shows "for_inc i n f s = for_inc i n g s"
  using for_inc_rel_simple [where R = "(=)" and f = f and g = g and s = s and t = s and i = i and n = n]
    assms by simp

lemma for_inc2_rel_simple:
  assumes "R s t"
    and "\<And>j a b. j < n \<Longrightarrow> R a b \<Longrightarrow> R (f j a) (g j b)"
  shows "R (for_inc2 0 n f s) (for_inc2 0 n g t)"
  unfolding for_inc2_0
proof (rule for_inc_rel_simple [where R = R])
  show "R s t" by (rule assms(1))
next
  fix j a b
  assume "j < (n + 1) div 2" and "R a b"
  moreover from this have "2 * j < n" by arith
  ultimately show "R (f (2 * j) a) (g (2 * j) b)" by (intro assms(2))
qed

lemma for_inc2_inv_simple:
  assumes "P s"
    and "\<And>j a. j < n \<Longrightarrow> P a \<Longrightarrow> P (body j a)"
  shows "P (for_inc2 0 n body s)"
  unfolding for_inc2_0
proof (rule for_inc_inv_simple [where P = P])
  show "P s" by (rule assms(1))
next
  fix j a
  assume "j < (n + 1) div 2" and "P a"
  moreover from this have "2 * j < n" by arith
  ultimately show "P (body (2 * j) a)" by (intro assms(2))
qed

lemma convert_pixel_eq:
  "convert_pixel ops co img fmt ys us vs iX iY bY bX s =
     s\<lparr> yuvBlock := (yuvBlock s)((bX, bY) := pixel_yuv ops co img (iX + bX) (iY + bY)),
        yPlane := (yPlane s)(iX + bX + (iY + bY) * ys :=
                    yuvToUNorm ops ChanY (blk_y (pixel_yuv ops co img (iX + bX) (iY + bY)))),
        uPlane := (if fmt = Subsampling444
                   then (uPlane s)(iX + bX + (iY + bY) * us :=
                          yuvToUNorm ops ChanU (blk_u (pixel_yuv ops co img (iX + bX) (iY + bY))))
                   else uPlane s),
        vPlane := (if fmt = Subsampling444
                   then (vPlane s)(iX + bX + (iY + bY) * vs :=
                          yuvToUNorm ops ChanV (blk_v (pixel_yuv ops co img (iX + bX) (iY + bY))))
                   else vPlane s) \<rparr>"
  by (simp add: convert_pixel_def pixel_yuv_def Let_def)

lemma yPlane_subsample420 [simp]:
  "yPlane (subsample420 ops us vs iX iY bw bh s) = yPlane s"
  by (simp add: subsample420_def Let_def)

lemma yPlane_subsample422_row [simp]:
  "yPlane (subsample422_row ops us vs iX iY bw bY s) = yPlane s"
  by (simp add: subsample422_row_def Let_def)

lemma yPlane_subsample422:
  "yPlane (for_inc 0 bh (subsample422_row ops us vs iX iY bw) s) = yPlane s"
  by (rule for_inc_inv_simple [where P = "\<lambda>a. yPlane a = yPlane s"]) simp_all

lemma chroma_untouched_pixels:
  fixes s :: "'f conv_state"
  assumes "fmt \<noteq> Subsampling444"
  shows "uPlane (for_inc 0 bh (\<lambda>bY. for_inc 0 bw
            (convert_pixel ops co img fmt ys us vs iX iY bY)) s) = uPlane s
       \<and> vPlane (for_inc 0 bh (\<lambda>bY. for_inc 0 bw
            (convert_pixel ops co img fmt ys us vs iX iY bY)) s) = vPlane s"
proof (rule for_inc_inv_simple [where P = "\<lambda>a. uPlane a = uPlane s \<and> vPlane a = vPlane s"])
  show "uPlane s = uPlane s \<and> vPlane s = vPlane s" by simp
next
  fix j and a :: "'f conv_state"
  assume "uPlane a = uPlane s \<and> vPlane a = vPlane s"
  then show "uPlane (for_inc 0 bw (convert_pixel ops co img fmt ys us vs iX iY j) a) = uPlane s \<and>
       vPlane (for_inc 0 bw (convert_pixel ops co img fmt ys us vs iX iY j) a) = vPlane s"
    by (rule for_inc_inv_simple [where P = "\<lambda>a. uPlane a = uPlane s \<and> vPlane a = vPlane s"])
      (simp add: convert_pixel_eq assms)
qed

lemma chroma_untouched_block:
  fixes s :: "'f conv_state"
  assumes "fmt \<noteq> Subsampling444" "fmt \<noteq> Subsampling420" "fmt \<noteq> Subsampling422"
  shows "uPlane (convert_block ops co img fmt ys us vs iY iX s) = uPlane s
       \<and> vPlane (convert_block ops co img fmt ys us vs iY iX s) = vPlane s"
  using assms chroma_untouched_pixels [OF assms(1), where ?'f = 'f]
  by (simp add: convert_block_def Let_def)

lemma chroma_untouched_state:
  fixes ops :: "'f float_ops"
  assumes "fmt \<noteq> Subsampling444" "fmt \<noteq> Subsampling420" "fmt \<noteq> Subsampling422"
  shows "uPlane (ColorToYUV8_state ops G blk0 img ci fmt yP ys uP us vP vs) = uP
       \<and> vPlane (ColorToYUV8_state ops G blk0 img ci fmt yP ys uP us vP vs) = vP"
  unfolding ColorToYUV8_state_def Let_def
proof (rule for_inc2_inv_simple [where P = "\<lambda>a. uPlane a = uP \<and> vPlane a = vP"])
  show "uPlane \<lparr>yuvBlock = blk0, yPlane = yP, uPlane = uP, vPlane = vP\<rparr> = uP \<and>
    vPlane \<lparr>yuvBlock = blk0, yPlane = yP, uPlane = uP, vPlane = vP\<rparr> = vP" by simp
next
  fix j and a :: "'f conv_state"
  assume "uPlane a = uP \<and> vPlane a = vP"
  then show "uPlane (for_inc2 0 (width img) (convert_block ops (G ci) img fmt ys us vs j) a) = uP \<and>
       vPlane (for_inc2 0 (width img) (convert_block ops (G ci) img fmt ys us vs j) a) = vP"
    by (rule for_inc2_inv_simple [where P = "\<lambda>a. uPlane a = uP \<and> vPlane a = vP"])
      (simp add: chroma_untouched_block [OF assms])
qed

text \<open>
  Claim C1, which the code does not meet. \<open>CompressWithAOM\<close> gives the mode
  \<open>IdentityMatrix\<close> a 4:4:4 image, but \<open>ColorToYUV8\<close> writes chroma at full resolution
  only when the mode is \<open>Subsampling444\<close>: called with \<open>IdentityMatrix\<close> it returns both
  chroma planes exactly as it received them, for every raster.
\<close>

theorem identity_matrix_chroma_not_written:
  "snd (ColorToYUV8 ops G blk0 img ci IdentityMatrix yP ys uP us vP vs) = (uP, vP)"
  using chroma_untouched_state [of IdentityMatrix ops G blk0 img ci yP ys uP us vP vs]
  by (simp add: ColorToYUV8_def Let_def)

section \<open>Noninterference of the color and the alpha input\<close>

lemma for_inc2_cong_range:
  assumes "\<And>j a. j < n \<Longrightarrow> f j a = g j a"
  shows "for_inc2 0 n f s = for_inc2 0 n g s"
  using for_inc2_rel_simple [where R = "(=)" and f = f and g = g and s = s and t = s and n = n]
    assms by simp

lemma pixel_yuv_cong:
  assumes "stride img2 = stride img1"
    and "pixel_b (scan0 img2) (y * stride img1 + x * sizeof_ColorBgra) =
         pixel_b (scan0 img1) (y * stride img1 + x * sizeof_ColorBgra)"
    and "pixel_g (scan0 img2) (y * stride img1 + x * sizeof_ColorBgra) =
         pixel_g (scan0 img1) (y * stride img1 + x * sizeof_ColorBgra)"
    and "pixel_r (scan0 img2) (y * stride img1 + x * sizeof_ColorBgra) =
         pixel_r (scan0 img1) (y * stride img1 + x * sizeof_ColorBgra)"
  shows "pixel_yuv ops co img2 x y = pixel_yuv ops co img1 x y"
  using assms by (simp add: pixel_yuv_def Let_def)

lemma convert_pixel_cong:
  fixes s :: "'f conv_state"
  assumes "same_geometry img1 img2" "same_color img1 img2"
    and "iX + bX < width img1" "iY + bY < height img1"
  shows "convert_pixel ops co img2 fmt ys us vs iX iY bY bX s =
         convert_pixel ops co img1 fmt ys us vs iX iY bY bX s"
proof -
  have "pixel_yuv ops co img2 (iX + bX) (iY + bY) = pixel_yuv ops co img1 (iX + bX) (iY + bY)"
    using assms by (intro pixel_yuv_cong) (simp_all add: same_geometry_def same_color_def)
  then show ?thesis by (simp add: convert_pixel_eq)
qed

lemma convert_block_cong:
  fixes s :: "'f conv_state"
  assumes g: "same_geometry img1 img2" and c: "same_color img1 img2"
    and x: "iX < width img1" and y: "iY < height img1"
  shows "convert_block ops co img2 fmt ys us vs iY iX s =
         convert_block ops co img1 fmt ys us vs iY iX s"
proof -
  let ?bw = "if iX + 1 \<ge> width img1 then 1 else 2 :: nat"
  let ?bh = "if iY + 1 \<ge> height img1 then 1 else 2 :: nat"
  have eq: "for_inc 0 ?bh (\<lambda>bY. for_inc 0 ?bw (convert_pixel ops co img2 fmt ys us vs iX iY bY)) s =
        for_inc 0 ?bh (\<lambda>bY. for_inc 0 ?bw (convert_pixel ops co img1 fmt ys us vs iX iY bY)) s"
  proof (rule for_inc_cong_range)
    fix bY and a :: "'f conv_state"
    assume bY: "bY < ?bh"
    then have yy: "iY + bY < height img1" using y by (simp split: if_splits)
    show "for_inc 0 ?bw (convert_pixel ops co img2 fmt ys us vs iX iY bY) a =
          for_inc 0 ?bw (convert_pixel ops co img1 fmt ys us vs iX iY bY) a"
    proof (rule for_inc_cong_range)
      fix bX and b :: "'f conv_state"
      assume "bX < ?bw"
      then have "iX + bX < width img1" using x by (simp split: if_splits)
      then show "convert_pixel ops co img2 fmt ys us vs iX iY bY bX b =
                 convert_pixel ops co img1 fmt ys us vs iX iY bY bX b"
        using yy by (intro convert_pixel_cong [OF g c])
    qed
  qed
  have wh: "width img2 = width img1" "height img2 = height img1"
    using g by (simp_all add: same_geometry_def)
  show ?thesis
    by (simp only: convert_block_def Let_def wh eq)
qed

lemma ColorToYUV8_cong:
  fixes ops :: "'f float_ops"
  assumes g: "same_geometry img1 img2" and c: "same_color img1 img2"
  shows "ColorToYUV8 ops G blk0 img2 ci fmt yP ys uP us vP vs =
         ColorToYUV8 ops G blk0 img1 ci fmt yP ys uP us vP vs"
proof -
  have wh: "width img2 = width img1" "height img2 = height img1"
    using g by (simp_all add: same_geometry_def)
  have "ColorToYUV8_state ops G blk0 img2 ci fmt yP ys uP us vP vs =
        ColorToYUV8_state ops G blk0 img1 ci fmt yP ys uP us vP vs"
    unfolding ColorToYUV8_state_def Let_def wh
  proof (rule for_inc2_cong_range)
    fix iY and a :: "'f conv_state"
    assume y: "iY < height img1"
    show "for_inc2 0 (width img1) (convert_block ops (G ci) img2 fmt ys us vs iY) a =
          for_inc2 0 (width img1) (convert_block ops (G ci) img1 fmt ys us vs iY) a"
      by (rule for_inc2_cong_range) (rule convert_block_cong [OF g c _ y])
  qed
  then show ?thesis by (simp add: ColorToYUV8_def)
qed

lemma alpha_copy_row_cong:
  assumes g: "same_geometry img1 img2" and c: "same_alpha img1 img2"
    and y: "y < height img1"
  shows "alpha_copy_row img2 ys y yP = alpha_copy_row img1 ys y yP"
proof -
  let ?R = "\<lambda>j (a :: nat \<times> nat \<times> buffer) b. a = b \<and> fst a = y * stride img1 + j * sizeof_ColorBgra"
  have "?R (max 0 (width img1))
          (for_inc 0 (width img1) (alpha_copy_step img2) (y * stride img1, y * ys, yP))
          (for_inc 0 (width img1) (alpha_copy_step img1) (y * stride img1, y * ys, yP))"
  proof (rule for_inc_rel [where R = ?R])
    show "?R 0 (y * stride img1, y * ys, yP) (y * stride img1, y * ys, yP)" by simp
  next
    fix j and a b :: "nat \<times> nat \<times> buffer"
    assume j: "j < width img1" and r: "?R j a b"
    have "pixel_a (scan0 img2) (y * stride img1 + j * sizeof_ColorBgra) =
          pixel_a (scan0 img1) (y * stride img1 + j * sizeof_ColorBgra)"
      using c y j by (simp add: same_alpha_def)
    then show "?R (Suc j) (alpha_copy_step img2 j a) (alpha_copy_step img1 j b)"
      using r by (cases a) (auto simp: alpha_copy_step_def)
  qed
  then show ?thesis
    using g by (simp add: alpha_copy_row_def Let_def same_geometry_def)
qed

lemma AlphaToY8_cong:
  assumes g: "same_geometry img1 img2" and c: "same_alpha img1 img2"
  shows "AlphaToY8 img2 yP ys = AlphaToY8 img1 yP ys"
proof -
  have h: "height img2 = height img1" using g by (simp add: same_geometry_def)
  show ?thesis
    unfolding AlphaToY8_def h
    by (rule for_inc_cong_range) (rule alpha_copy_row_cong [OF g c])
qed

text \<open>
  Claim C10. Two rasters of the same geometry whose pixels agree in every blue, green and
  red byte, whatever their alpha bytes, give the same three planes under \<open>ColorToYUV8\<close>;
  two rasters of the same geometry whose pixels agree in every alpha byte, whatever their
  color bytes, give the same luma plane under \<open>AlphaToY8\<close>.
\<close>

theorem color_alpha_noninterference:
  fixes ops :: "'f float_ops"
  shows "(same_geometry img1 img2 \<and> same_color img1 img2 \<longrightarrow>
            ColorToYUV8 ops G blk0 img2 ci fmt yP ys uP us vP vs =
            ColorToYUV8 ops G blk0 img1 ci fmt yP ys uP us vP vs)
       \<and> (same_geometry img3 img4 \<and> same_alpha img3 img4 \<longrightarrow>
            AlphaToY8 img4 aP aStride = AlphaToY8 img3 aP aStride)"
  using ColorToYUV8_cong [of img1 img2 ops G blk0 ci fmt yP ys uP us vP vs]
    AlphaToY8_cong [of img3 img4 aP aStride]
  by blast

theorem color_alpha_noninterference_witness:
  "ColorToYUV8 exact_ops bt601 zero_block img3x3_opaque () Subsampling420
       zero_buffer 16 zero_buffer 16 zero_buffer 16 =
     ColorToYUV8 exact_ops bt601 zero_block img3x3 () Subsampling420
       zero_buffer 16 zero_buffer 16 zero_buffer 16
   \<and> AlphaToY8 img3x3_black zero_buffer 16 = AlphaToY8 img3x3 zero_buffer 16"
proof -
  have g1: "same_geometry img3x3 img3x3_opaque" and g2: "same_geometry img3x3 img3x3_black"
    by (simp_all add: same_geometry_def img3x3_opaque_def img3x3_black_def)
  have st: "stride img3x3 = 12" by (simp add: img3x3_def)
  have o: "scan0 img3x3_opaque k = scan0 img3x3 k" if "k mod 4 \<noteq> 3" for k
    using that by (simp add: img3x3_opaque_def)
  have b: "scan0 img3x3_black k = scan0 img3x3 k" if "k mod 4 = 3" for k
    using that by (simp add: img3x3_black_def)
  have c: "same_color img3x3 img3x3_opaque"
    unfolding same_color_def pixel_b_def pixel_g_def pixel_r_def st sizeof_ColorBgra_def
    by (intro ballI conjI; rule o; presburger)
  have a: "same_alpha img3x3 img3x3_black"
    unfolding same_alpha_def pixel_a_def st sizeof_ColorBgra_def
    by (intro ballI; rule b; presburger)
  show ?thesis
    using color_alpha_noninterference [where ?img1.0 = img3x3 and ?img2.0 = img3x3_opaque and ops = exact_ops
        and G = bt601 and ?blk0.0 = zero_block and ci = "()" and fmt = Subsampling420
        and yP = zero_buffer and ys = 16 and uP = zero_buffer and us = 16
        and vP = zero_buffer and vs = 16 and ?img3.0 = img3x3 and ?img4.0 = img3x3_black
        and aP = zero_buffer and aStride = 16] g1 g2 c a
    by simp
qed

section \<open>The alpha converter\<close>

lemma alpha_copy_row_eq:
  "alpha_copy_row img ys y yP =
     (\<lambda>k. if y * ys \<le> k \<and> k < y * ys + width img
          then pixel_a (scan0 img) (y * stride img + (k - y * ys) * sizeof_ColorBgra)
          else yP k)"
proof -
  let ?Q = "\<lambda>j k. if y * ys \<le> k \<and> k < y * ys + j
          then pixel_a (scan0 img) (y * stride img + (k - y * ys) * sizeof_ColorBgra)
          else yP k"
  let ?P = "\<lambda>j (st :: nat \<times> nat \<times> buffer).
     st = (y * stride img + j * sizeof_ColorBgra, y * ys + j, ?Q j)"
  have "?P (max 0 (width img))
          (for_inc 0 (width img) (alpha_copy_step img) (y * stride img, y * ys, yP))"
  proof (rule for_inc_invariant [where P = ?P])
    show "?P 0 (y * stride img, y * ys, yP)" by (auto simp: fun_eq_iff)
  next
    fix j and a :: "nat \<times> nat \<times> buffer"
    assume p: "?P j a"
    have "(?Q j)(y * ys + j := pixel_a (scan0 img) (y * stride img + j * sizeof_ColorBgra)) = ?Q (Suc j)"
      by (rule ext) auto
    then show "?P (Suc j) (alpha_copy_step img j a)"
      using p by (simp add: alpha_copy_step_def)
  qed
  then show ?thesis
    by (simp add: alpha_copy_row_def Let_def)
qed

lemma AlphaToY8_rows:
  assumes "width img \<le> ys"
  shows "\<forall>y < max 0 (height img). \<forall>x < width img.
           AlphaToY8 img yP ys (x + y * ys) =
             pixel_a (scan0 img) (y * stride img + x * sizeof_ColorBgra)"
  unfolding AlphaToY8_def
proof (rule for_inc_invariant [where P = "\<lambda>j P'. \<forall>y < j. \<forall>x < width img.
           P' (x + y * ys) = pixel_a (scan0 img) (y * stride img + x * sizeof_ColorBgra)"])
  show "\<forall>y<0. \<forall>x<width img. yP (x + y * ys) =
          pixel_a (scan0 img) (y * stride img + x * sizeof_ColorBgra)" by simp
next
  fix j and a :: buffer
  assume inv: "\<forall>y<j. \<forall>x<width img. a (x + y * ys) =
          pixel_a (scan0 img) (y * stride img + x * sizeof_ColorBgra)"
  show "\<forall>y<Suc j. \<forall>x<width img. alpha_copy_row img ys j a (x + y * ys) =
          pixel_a (scan0 img) (y * stride img + x * sizeof_ColorBgra)"
  proof (intro allI impI)
    fix y x
    assume y: "y < Suc j" and x: "x < width img"
    show "alpha_copy_row img ys j a (x + y * ys) =
          pixel_a (scan0 img) (y * stride img + x * sizeof_ColorBgra)"
    proof (cases "y = j")
      case True
      then show ?thesis using x by (simp add: alpha_copy_row_eq)
    next
      case False
      then have lt: "y < j" using y by simp
      then have "Suc y * ys \<le> j * ys" by (intro mult_le_mono1) simp
      then have "x + y * ys < j * ys" using x assms by simp
      then show ?thesis using inv lt x by (simp add: alpha_copy_row_eq)
    qed
  qed
qed

lemma zero_chroma_row_luma:
  "img_planes (zero_chroma_row y im) AOM_PLANE_Y = img_planes im AOM_PLANE_Y"
  by (simp add: zero_chroma_row_def Let_def)

lemma zero_chroma_rows_luma:
  "img_planes (for_inc 0 n zero_chroma_row im) AOM_PLANE_Y = img_planes im AOM_PLANE_Y"
  by (rule for_inc_inv_simple
      [where P = "\<lambda>a. img_planes a AOM_PLANE_Y = img_planes im AOM_PLANE_Y"])
    (simp_all add: zero_chroma_row_luma)

text \<open>
  Claim C5. For every pixel \<open>(x, y)\<close> of the raster, \<open>AlphaToY8\<close> leaves in the luma
  plane, at column \<open>x\<close> of row \<open>y\<close>, the alpha byte of that pixel as it is; and so does
  \<open>ConvertAlphaToAOMImage\<close> in the luma plane of the image it returns. The rows of the
  plane must not overlap: its stride is at least the width, which holds for every image
  the codec allocates.
\<close>

theorem alpha_copied_verbatim:
  assumes "x < width img" and "y < height img" and "width img \<le> yPlaneStride"
  shows "AlphaToY8 img yP yPlaneStride (x + y * yPlaneStride) =
           pixel_a (scan0 img) (y * stride img + x * sizeof_ColorBgra)
       \<and> (aom_img_alloc env tr AOM_IMG_FMT_I420 (width img) (height img) 16 = Some (p, im)
            \<and> img_stride im AOM_PLANE_Y = yPlaneStride \<longrightarrow>
          (\<exists>im'. fst (ConvertAlphaToAOMImage env img tr) = Some (p, im')
             \<and> img_planes im' AOM_PLANE_Y (x + y * yPlaneStride) =
                 pixel_a (scan0 img) (y * stride img + x * sizeof_ColorBgra)))"
proof -
  have a: "AlphaToY8 img P yPlaneStride (x + y * yPlaneStride) =
           pixel_a (scan0 img) (y * stride img + x * sizeof_ColorBgra)" for P
    using AlphaToY8_rows [OF assms(3), of P] assms(1,2) by simp
  show ?thesis
    by (simp add: a ConvertAlphaToAOMImage_def Let_def zero_chroma_rows_luma)
qed

theorem alpha_copied_verbatim_witness:
  "AlphaToY8 img3x3 zero_buffer 16 (2 + 1 * 16) = 164
   \<and> (\<exists>im'. fst (ConvertAlphaToAOMImage env_ok img3x3 []) = Some (4096, im')
             \<and> img_planes im' AOM_PLANE_Y (2 + 1 * 16) = 164)"
  using alpha_copied_verbatim [of 2 img3x3 1 16 zero_buffer env_ok "[]" 4096 "blank_image AOM_IMG_FMT_I420 3 3"]
  by (simp add: img3x3_def pixel_a_def sizeof_ColorBgra_def env_ok_def alloc_ok_def
      blank_image_def)

lemma zero_chroma_rows_above:
  assumes "n * img_stride im AOM_PLANE_U < 2 ^ 32" and "n * img_stride im AOM_PLANE_V < 2 ^ 32"
  shows "img_stride (for_inc 0 n zero_chroma_row im) = img_stride im
       \<and> (\<forall>k \<ge> max 0 n * img_stride im AOM_PLANE_U.
            img_planes (for_inc 0 n zero_chroma_row im) AOM_PLANE_U k = img_planes im AOM_PLANE_U k)
       \<and> (\<forall>k \<ge> max 0 n * img_stride im AOM_PLANE_V.
            img_planes (for_inc 0 n zero_chroma_row im) AOM_PLANE_V k = img_planes im AOM_PLANE_V k)"
proof (rule for_inc_invariant [where P = "\<lambda>j a. img_stride a = img_stride im
       \<and> (\<forall>k \<ge> j * img_stride im AOM_PLANE_U.
            img_planes a AOM_PLANE_U k = img_planes im AOM_PLANE_U k)
       \<and> (\<forall>k \<ge> j * img_stride im AOM_PLANE_V.
            img_planes a AOM_PLANE_V k = img_planes im AOM_PLANE_V k)"])
  show "img_stride im = img_stride im \<and>
    (\<forall>k\<ge>0 * img_stride im AOM_PLANE_U. img_planes im AOM_PLANE_U k = img_planes im AOM_PLANE_U k) \<and>
    (\<forall>k\<ge>0 * img_stride im AOM_PLANE_V. img_planes im AOM_PLANE_V k = img_planes im AOM_PLANE_V k)"
    by simp
next
  fix j and a :: aom_image
  assume j: "j < n"
    and inv: "img_stride a = img_stride im \<and>
           (\<forall>k\<ge>j * img_stride im AOM_PLANE_U. img_planes a AOM_PLANE_U k = img_planes im AOM_PLANE_U k) \<and>
           (\<forall>k\<ge>j * img_stride im AOM_PLANE_V. img_planes a AOM_PLANE_V k = img_planes im AOM_PLANE_V k)"
  have "j * img_stride im AOM_PLANE_U \<le> n * img_stride im AOM_PLANE_U"
    and "j * img_stride im AOM_PLANE_V \<le> n * img_stride im AOM_PLANE_V"
    using j by (simp_all add: mult_le_mono1)
  then have "j * img_stride im AOM_PLANE_U < 2 ^ 32" and "j * img_stride im AOM_PLANE_V < 2 ^ 32"
    using assms by linarith+
  then have m: "(j * img_stride im AOM_PLANE_U) mod 2 ^ 32 = j * img_stride im AOM_PLANE_U"
    "(j * img_stride im AOM_PLANE_V) mod 2 ^ 32 = j * img_stride im AOM_PLANE_V"
    by (simp_all only: mod_less)
  show "img_stride (zero_chroma_row j a) = img_stride im \<and>
           (\<forall>k\<ge>Suc j * img_stride im AOM_PLANE_U.
               img_planes (zero_chroma_row j a) AOM_PLANE_U k = img_planes im AOM_PLANE_U k) \<and>
           (\<forall>k\<ge>Suc j * img_stride im AOM_PLANE_V.
               img_planes (zero_chroma_row j a) AOM_PLANE_V k = img_planes im AOM_PLANE_V k)"
    using inv m by (auto simp: zero_chroma_row_def Let_def memset_def)
qed

text \<open>
  Claim C2, which the code does not meet. \<open>ConvertAlphaToAOMImage\<close> zeroes
  \<open>height / 2\<close> rows of each chroma plane, rounding down, while a 4:2:0 chroma plane has
  the luma height halved and rounded up. For a raster of odd height the last chroma row
  is row \<open>height / 2\<close>, and every byte from the start of that row on is returned as the
  allocator delivered it.
\<close>

theorem last_chroma_row_not_zeroed:
  assumes "aom_img_alloc env tr AOM_IMG_FMT_I420 (width img) (height img) 16 = Some (p, im)"
    and "odd (height img)"
    and "(height img div 2) * img_stride im AOM_PLANE_U < 2 ^ 32"
    and "(height img div 2) * img_stride im AOM_PLANE_V < 2 ^ 32"
  shows "\<exists>im'. fst (ConvertAlphaToAOMImage env img tr) = Some (p, im')
           \<and> height img div 2 < chroma_height AOM_IMG_FMT_I420 (height img)
           \<and> (\<forall>k. img_planes im' AOM_PLANE_U (height img div 2 * img_stride im AOM_PLANE_U + k) =
                    img_planes im AOM_PLANE_U (height img div 2 * img_stride im AOM_PLANE_U + k))
           \<and> (\<forall>k. img_planes im' AOM_PLANE_V (height img div 2 * img_stride im AOM_PLANE_V + k) =
                    img_planes im AOM_PLANE_V (height img div 2 * img_stride im AOM_PLANE_V + k))"
proof -
  let ?im1 = "im\<lparr> img_range := AOM_CR_FULL_RANGE, img_monochrome := 1,
                   img_planes := (img_planes im)(AOM_PLANE_Y :=
                        AlphaToY8 img (img_planes im AOM_PLANE_Y) (img_stride im AOM_PLANE_Y)) \<rparr>"
  have s: "img_stride ?im1 = img_stride im" by simp
  have z: "(\<forall>k \<ge> max 0 (height img div 2) * img_stride ?im1 AOM_PLANE_U.
            img_planes (for_inc 0 (height img div 2) zero_chroma_row ?im1) AOM_PLANE_U k =
              img_planes ?im1 AOM_PLANE_U k)
       \<and> (\<forall>k \<ge> max 0 (height img div 2) * img_stride ?im1 AOM_PLANE_V.
            img_planes (for_inc 0 (height img div 2) zero_chroma_row ?im1) AOM_PLANE_V k =
              img_planes ?im1 AOM_PLANE_V k)"
    using zero_chroma_rows_above [of "height img div 2" ?im1] assms(3,4) unfolding s by blast
  have h: "height img div 2 < chroma_height AOM_IMG_FMT_I420 (height img)"
    using assms(2) by (auto simp: chroma_height_def elim: oddE)
  show ?thesis
    using z h assms(1) by (simp add: ConvertAlphaToAOMImage_def Let_def)
qed

theorem last_chroma_row_not_zeroed_witness:
  "\<exists>im'. fst (ConvertAlphaToAOMImage env_ok img1x1 []) = Some (4096, im')
      \<and> img_planes im' AOM_PLANE_U 0 = 0xAA \<and> img_planes im' AOM_PLANE_V 0 = 0xAA"
proof -
  have a: "aom_img_alloc env_ok [] AOM_IMG_FMT_I420 (width img1x1) (height img1x1) 16 =
      Some (4096, blank_image AOM_IMG_FMT_I420 1 1)"
    by (simp add: env_ok_def alloc_ok_def img1x1_def)
  have b: "odd (height img1x1)" by (simp add: img1x1_def)
  have c: "(height img1x1 div 2) * img_stride (blank_image AOM_IMG_FMT_I420 1 1) AOM_PLANE_U < 2 ^ 32"
    "(height img1x1 div 2) * img_stride (blank_image AOM_IMG_FMT_I420 1 1) AOM_PLANE_V < 2 ^ 32"
    by (simp_all add: img1x1_def)
  obtain im' where r: "fst (ConvertAlphaToAOMImage env_ok img1x1 []) = Some (4096, im')"
    and u: "\<forall>k. img_planes im' AOM_PLANE_U (height img1x1 div 2 *
                img_stride (blank_image AOM_IMG_FMT_I420 1 1) AOM_PLANE_U + k) =
              img_planes (blank_image AOM_IMG_FMT_I420 1 1) AOM_PLANE_U (height img1x1 div 2 *
                img_stride (blank_image AOM_IMG_FMT_I420 1 1) AOM_PLANE_U + k)"
    and v: "\<forall>k. img_planes im' AOM_PLANE_V (height img1x1 div 2 *
                img_stride (blank_image AOM_IMG_FMT_I420 1 1) AOM_PLANE_V + k) =
              img_planes (blank_image AOM_IMG_FMT_I420 1 1) AOM_PLANE_V (height img1x1 div 2 *
                img_stride (blank_image AOM_IMG_FMT_I420 1 1) AOM_PLANE_V + k)"
    using last_chroma_row_not_zeroed [OF a b c] by blast
  have "img_planes im' AOM_PLANE_U 0 = 0xAA" "img_planes im' AOM_PLANE_V 0 = 0xAA"
    using u [rule_format, of 0] v [rule_format, of 0]
    by (simp_all add: img1x1_def blank_image_def)
  then show ?thesis using r by blast
qed

section \<open>Chroma subsampling\<close>

lemma yuvBlock_pixel_row:
  fixes a :: "'f conv_state"
  shows "yuvBlock (for_inc 0 bw (convert_pixel ops co img fmt ys us vs iX iY bY) a) =
     (\<lambda>p. if snd p = bY \<and> fst p < bw then pixel_yuv ops co img (iX + fst p) (iY + bY)
          else yuvBlock a p)"
proof -
  let ?Q = "\<lambda>j p. if snd p = bY \<and> fst p < j then pixel_yuv ops co img (iX + fst p) (iY + bY)
          else yuvBlock a p"
  have "yuvBlock (for_inc 0 bw (convert_pixel ops co img fmt ys us vs iX iY bY) a) = ?Q (max 0 bw)"
  proof (rule for_inc_invariant [where P = "\<lambda>j (b :: 'f conv_state). yuvBlock b = ?Q j"])
    show "yuvBlock a = ?Q 0" by (simp add: fun_eq_iff)
  next
    fix j and b :: "'f conv_state"
    assume "yuvBlock b = ?Q j"
    then show "yuvBlock (convert_pixel ops co img fmt ys us vs iX iY bY j b) = ?Q (Suc j)"
      by (auto simp: convert_pixel_eq fun_eq_iff less_Suc_eq)
  qed
  then show ?thesis by simp
qed

lemma yuvBlock_pixel_block:
  fixes s :: "'f conv_state"
  shows "yuvBlock (for_inc 0 bh (\<lambda>bY. for_inc 0 bw
            (convert_pixel ops co img fmt ys us vs iX iY bY)) s) =
     (\<lambda>p. if snd p < bh \<and> fst p < bw then pixel_yuv ops co img (iX + fst p) (iY + snd p)
          else yuvBlock s p)"
proof -
  let ?Q = "\<lambda>j p. if snd p < j \<and> fst p < bw then pixel_yuv ops co img (iX + fst p) (iY + snd p)
          else yuvBlock s p"
  have "yuvBlock (for_inc 0 bh (\<lambda>bY. for_inc 0 bw
            (convert_pixel ops co img fmt ys us vs iX iY bY)) s) = ?Q (max 0 bh)"
  proof (rule for_inc_invariant [where P = "\<lambda>j (b :: 'f conv_state). yuvBlock b = ?Q j"])
    show "yuvBlock s = ?Q 0" by (simp add: fun_eq_iff)
  next
    fix j and b :: "'f conv_state"
    assume "yuvBlock b = ?Q j"
    then show "yuvBlock (for_inc 0 bw (convert_pixel ops co img fmt ys us vs iX iY j) b) = ?Q (Suc j)"
      by (auto simp: yuvBlock_pixel_row fun_eq_iff less_Suc_eq)
  qed
  then show ?thesis by simp
qed

lemma block_sums:
  fixes s :: "'f conv_state"
  assumes "\<And>bI bJ. bI < bw \<Longrightarrow> bJ < bh \<Longrightarrow>
             yuvBlock s (bI, bJ) = pixel_yuv ops co img (iX + bI) (iY + bJ)"
  shows "for_inc 0 bh (\<lambda>bJ. for_inc 0 bw (\<lambda>bI. sum_step ops s bJ bI))
           (f_of_nat ops 0, f_of_nat ops 0) = chroma_sums ops co img iX iY bw bh"
  unfolding chroma_sums_def
proof (rule for_inc_cong_range)
  fix bJ and a :: "'f \<times> 'f"
  assume bJ: "bJ < bh"
  show "for_inc 0 bw (sum_step ops s bJ) a =
        for_inc 0 bw (\<lambda>bI acc. (f_add ops (fst acc) (blk_u (pixel_yuv ops co img (iX + bI) (iY + bJ))),
                      f_add ops (snd acc) (blk_v (pixel_yuv ops co img (iX + bI) (iY + bJ))))) a"
    by (rule for_inc_cong_range) (simp add: sum_step_def assms bJ)
qed

lemma row_sums:
  fixes s :: "'f conv_state"
  assumes "\<And>bI. bI < bw \<Longrightarrow> yuvBlock s (bI, bJ) = pixel_yuv ops co img (iX + bI) (iY + bJ)"
  shows "for_inc 0 bw (\<lambda>bI. sum_step ops s bJ bI) (f_of_nat ops 0, f_of_nat ops 0) =
           chroma_sums ops co img iX (iY + bJ) bw 1"
proof -
  have "for_inc 0 bw (sum_step ops s bJ) (f_of_nat ops 0, f_of_nat ops 0) =
        for_inc 0 bw (\<lambda>bI acc. (f_add ops (fst acc) (blk_u (pixel_yuv ops co img (iX + bI) (iY + bJ))),
                      f_add ops (snd acc) (blk_v (pixel_yuv ops co img (iX + bI) (iY + bJ)))))
          (f_of_nat ops 0, f_of_nat ops 0)"
    by (rule for_inc_cong_range) (simp add: sum_step_def assms)
  then show ?thesis
    by (simp add: chroma_sums_def for_inc_0_1)
qed

lemma convert_block_alt:
  "convert_block ops co img fmt ys us vs iY iX s =
     (let bw = block_extent (width img) iX;
          bh = block_extent (height img) iY;
          s1 = for_inc 0 bh (\<lambda>bY. for_inc 0 bw (convert_pixel ops co img fmt ys us vs iX iY bY)) s
      in if fmt = Subsampling420 then subsample420 ops us vs iX iY bw bh s1
         else if fmt = Subsampling422
         then for_inc 0 bh (subsample422_row ops us vs iX iY bw) s1
         else s1)"
  by (simp only: convert_block_def block_extent_def)

lemma convert_block_420:
  fixes s :: "'f conv_state"
  shows "uPlane (convert_block ops co img Subsampling420 ys us vs iY iX s) =
           (uPlane s)(iX div 2 + (iY div 2) * us := sample420 ops co img ChanU iX iY)"
    and "vPlane (convert_block ops co img Subsampling420 ys us vs iY iX s) =
           (vPlane s)(iX div 2 + (iY div 2) * vs := sample420 ops co img ChanV iX iY)"
proof -
  let ?bw = "block_extent (width img) iX" and ?bh = "block_extent (height img) iY"
  let ?s1 = "for_inc 0 ?bh (\<lambda>bY. for_inc 0 ?bw
               (convert_pixel ops co img Subsampling420 ys us vs iX iY bY)) s"
  have uv: "uPlane ?s1 = uPlane s" "vPlane ?s1 = vPlane s"
    using chroma_untouched_pixels [of Subsampling420 ?bh ?bw ops co img ys us vs iX iY s]
    by simp_all
  have sm: "for_inc 0 ?bh (\<lambda>bJ. for_inc 0 ?bw (\<lambda>bI. sum_step ops ?s1 bJ bI))
           (f_of_nat ops 0, f_of_nat ops 0) = chroma_sums ops co img iX iY ?bw ?bh"
    by (rule block_sums) (simp add: yuvBlock_pixel_block)
  show "uPlane (convert_block ops co img Subsampling420 ys us vs iY iX s) =
           (uPlane s)(iX div 2 + (iY div 2) * us := sample420 ops co img ChanU iX iY)"
    by (simp add: convert_block_alt Let_def subsample420_def sm uv sample420_def)
  show "vPlane (convert_block ops co img Subsampling420 ys us vs iY iX s) =
           (vPlane s)(iX div 2 + (iY div 2) * vs := sample420 ops co img ChanV iX iY)"
    by (simp add: convert_block_alt Let_def subsample420_def sm uv sample420_def)
qed

lemma subsample422_row_eq:
  fixes a :: "'f conv_state"
  assumes "\<And>bI. bI < bw \<Longrightarrow> yuvBlock a (bI, bY) = pixel_yuv ops co img (iX + bI) (iY + bY)"
    and "bw = block_extent (width img) iX"
  shows "subsample422_row ops us vs iX iY bw bY a =
           a\<lparr> uPlane := (uPlane a)(iX div 2 + (iY + bY) * us :=
                          sample422 ops co img ChanU iX (iY + bY)),
              vPlane := (vPlane a)(iX div 2 + (iY + bY) * vs :=
                          sample422 ops co img ChanV iX (iY + bY)) \<rparr>"
  using row_sums [of bw a bY ops co img iX iY, OF assms(1)] assms(2)
  by (simp add: subsample422_row_def Let_def sample422_def)

lemma yuvBlock_subsample422_row:
  "yuvBlock (subsample422_row ops us vs iX iY bw bY a) = yuvBlock a"
  by (simp add: subsample422_row_def Let_def)

lemma convert_block_422:
  fixes s :: "'f conv_state"
  shows "uPlane (convert_block ops co img Subsampling422 ys us vs iY iX s) =
           (if height img \<le> iY + 1
            then (uPlane s)(iX div 2 + iY * us := sample422 ops co img ChanU iX iY)
            else ((uPlane s)(iX div 2 + iY * us := sample422 ops co img ChanU iX iY))
                   (iX div 2 + (iY + 1) * us := sample422 ops co img ChanU iX (iY + 1)))"
    and "vPlane (convert_block ops co img Subsampling422 ys us vs iY iX s) =
           (if height img \<le> iY + 1
            then (vPlane s)(iX div 2 + iY * vs := sample422 ops co img ChanV iX iY)
            else ((vPlane s)(iX div 2 + iY * vs := sample422 ops co img ChanV iX iY))
                   (iX div 2 + (iY + 1) * vs := sample422 ops co img ChanV iX (iY + 1)))"
proof -
  let ?bw = "block_extent (width img) iX" and ?bh = "block_extent (height img) iY"
  let ?s1 = "for_inc 0 ?bh (\<lambda>bY. for_inc 0 ?bw
               (convert_pixel ops co img Subsampling422 ys us vs iX iY bY)) s"
  have uv: "uPlane ?s1 = uPlane s" "vPlane ?s1 = vPlane s"
    using chroma_untouched_pixels [of Subsampling422 ?bh ?bw ops co img ys us vs iX iY s]
    by simp_all
  have yb: "yuvBlock ?s1 (bI, bJ) = pixel_yuv ops co img (iX + bI) (iY + bJ)"
    if "bI < ?bw" "bJ < ?bh" for bI bJ
    using that by (simp add: yuvBlock_pixel_block)
  have bh_pos: "0 < ?bh" by (simp add: block_extent_def)
  have r0: "subsample422_row ops us vs iX iY ?bw 0 ?s1 =
           ?s1\<lparr> uPlane := (uPlane ?s1)(iX div 2 + (iY + 0) * us :=
                          sample422 ops co img ChanU iX (iY + 0)),
              vPlane := (vPlane ?s1)(iX div 2 + (iY + 0) * vs :=
                          sample422 ops co img ChanV iX (iY + 0)) \<rparr>"
    by (rule subsample422_row_eq) (simp_all add: yb bh_pos)
  let ?s2 = "subsample422_row ops us vs iX iY ?bw 0 ?s1"
  have r1: "subsample422_row ops us vs iX iY ?bw (Suc 0) ?s2 =
           ?s2\<lparr> uPlane := (uPlane ?s2)(iX div 2 + (iY + Suc 0) * us :=
                          sample422 ops co img ChanU iX (iY + Suc 0)),
              vPlane := (vPlane ?s2)(iX div 2 + (iY + Suc 0) * vs :=
                          sample422 ops co img ChanV iX (iY + Suc 0)) \<rparr>"
    if "Suc 0 < ?bh"
    by (rule subsample422_row_eq) (simp_all add: yuvBlock_subsample422_row yb that)
  have bh: "?bh = (if height img \<le> iY + 1 then 1 else 2)"
    by (simp add: block_extent_def)
  show "uPlane (convert_block ops co img Subsampling422 ys us vs iY iX s) =
           (if height img \<le> iY + 1
            then (uPlane s)(iX div 2 + iY * us := sample422 ops co img ChanU iX iY)
            else ((uPlane s)(iX div 2 + iY * us := sample422 ops co img ChanU iX iY))
                   (iX div 2 + (iY + 1) * us := sample422 ops co img ChanU iX (iY + 1)))"
  proof (cases "height img \<le> iY + 1")
    case True
    then have "?bh = Suc 0" using bh by simp
    then show ?thesis
      using True r0 uv by (simp add: convert_block_alt Let_def for_inc_0_1)
  next
    case False
    then have b2: "?bh = 2" using bh by simp
    show ?thesis
      using False r0 r1 uv b2 by (simp add: convert_block_alt Let_def for_inc_0_2)
  qed
  show "vPlane (convert_block ops co img Subsampling422 ys us vs iY iX s) =
           (if height img \<le> iY + 1
            then (vPlane s)(iX div 2 + iY * vs := sample422 ops co img ChanV iX iY)
            else ((vPlane s)(iX div 2 + iY * vs := sample422 ops co img ChanV iX iY))
                   (iX div 2 + (iY + 1) * vs := sample422 ops co img ChanV iX (iY + 1)))"
  proof (cases "height img \<le> iY + 1")
    case True
    then have "?bh = Suc 0" using bh by simp
    then show ?thesis
      using True r0 uv by (simp add: convert_block_alt Let_def for_inc_0_1)
  next
    case False
    then have b2: "?bh = 2" using bh by simp
    show ?thesis
      using False r0 r1 uv b2 by (simp add: convert_block_alt Let_def for_inc_0_2)
  qed
qed

lemma cell_unique:
  fixes cx :: nat
  assumes "cx < st" and "cx' < st" and "cx + y * st = cx' + y' * st"
  shows "cx = cx' \<and> y = y'"
proof -
  have "(cx + y * st) mod st = (cx' + y' * st) mod st" using assms(3) by simp
  then have c: "cx = cx'" using assms(1,2) by simp
  then have "y * st = y' * st" using assms(3) by simp
  then have "y = y'" using assms(1) by simp
  then show ?thesis using c by simp
qed

lemma plane_fill:
  fixes body :: "nat \<Rightarrow> nat \<Rightarrow> 's \<Rightarrow> 's" and proj :: "'s \<Rightarrow> buffer"
  assumes step1: "\<And>cy cx y a. cy < ch \<Longrightarrow> cx < cw \<Longrightarrow> lo cy \<le> y \<Longrightarrow> y < hi cy \<Longrightarrow>
                    proj (body cy cx a) (cx + y * st) = val cx y"
    and step2: "\<And>cy cx k a. cy < ch \<Longrightarrow> cx < cw \<Longrightarrow>
                    (\<forall>y. lo cy \<le> y \<and> y < hi cy \<longrightarrow> k \<noteq> cx + y * st) \<Longrightarrow>
                    proj (body cy cx a) k = proj a k"
    and mono: "\<And>cy cy'. cy < cy' \<Longrightarrow> cy' < ch \<Longrightarrow> hi cy \<le> lo cy'"
    and wide: "cw \<le> st"
  shows "\<forall>cy < max 0 ch. \<forall>y. lo cy \<le> y \<and> y < hi cy \<longrightarrow> (\<forall>cx < cw.
           proj (for_inc 0 ch (\<lambda>cy. for_inc 0 cw (body cy)) s) (cx + y * st) = val cx y)"
proof (rule for_inc_invariant [where P = "\<lambda>j a. \<forall>cy < j. \<forall>y. lo cy \<le> y \<and> y < hi cy \<longrightarrow>
           (\<forall>cx < cw. proj a (cx + y * st) = val cx y)"])
  show "\<forall>cy<0. \<forall>y. lo cy \<le> y \<and> y < hi cy \<longrightarrow> (\<forall>cx<cw. proj s (cx + y * st) = val cx y)"
    by simp
next
  fix j a
  assume j: "j < ch"
    and inv: "\<forall>cy<j. \<forall>y. lo cy \<le> y \<and> y < hi cy \<longrightarrow> (\<forall>cx<cw. proj a (cx + y * st) = val cx y)"
  let ?row = "for_inc 0 cw (body j) a"
  have row: "(\<forall>cx<max 0 cw. \<forall>y. lo j \<le> y \<and> y < hi j \<longrightarrow> proj ?row (cx + y * st) = val cx y)
       \<and> (\<forall>k. (\<forall>cx<max 0 cw. \<forall>y. lo j \<le> y \<and> y < hi j \<longrightarrow> k \<noteq> cx + y * st) \<longrightarrow>
              proj ?row k = proj a k)"
  proof (rule for_inc_invariant [where P = "\<lambda>i b.
         (\<forall>cx<i. \<forall>y. lo j \<le> y \<and> y < hi j \<longrightarrow> proj b (cx + y * st) = val cx y)
       \<and> (\<forall>k. (\<forall>cx<i. \<forall>y. lo j \<le> y \<and> y < hi j \<longrightarrow> k \<noteq> cx + y * st) \<longrightarrow>
              proj b k = proj a k)"])
    show "(\<forall>cx<0. \<forall>y. lo j \<le> y \<and> y < hi j \<longrightarrow> proj a (cx + y * st) = val cx y) \<and>
      (\<forall>k. (\<forall>cx<0. \<forall>y. lo j \<le> y \<and> y < hi j \<longrightarrow> k \<noteq> cx + y * st) \<longrightarrow> proj a k = proj a k)"
      by simp
  next
    fix i b
    assume i: "i < cw"
      and p: "(\<forall>cx<i. \<forall>y. lo j \<le> y \<and> y < hi j \<longrightarrow> proj b (cx + y * st) = val cx y) \<and>
        (\<forall>k. (\<forall>cx<i. \<forall>y. lo j \<le> y \<and> y < hi j \<longrightarrow> k \<noteq> cx + y * st) \<longrightarrow> proj b k = proj a k)"
    have old: "proj (body j i b) (cx + y * st) = val cx y"
      if "cx < i" "lo j \<le> y" "y < hi j" for cx y
    proof -
      have "\<forall>y'. lo j \<le> y' \<and> y' < hi j \<longrightarrow> cx + y * st \<noteq> i + y' * st"
        using cell_unique [of cx st i y] that(1) i wide by fastforce
      then have "proj (body j i b) (cx + y * st) = proj b (cx + y * st)"
        by (rule step2 [OF j i])
      then show ?thesis using p that by simp
    qed
    have new: "proj (body j i b) (i + y * st) = val i y" if "lo j \<le> y" "y < hi j" for y
      using step1 [OF j i that] .
    have other: "proj (body j i b) k = proj a k"
      if "\<forall>cx<Suc i. \<forall>y. lo j \<le> y \<and> y < hi j \<longrightarrow> k \<noteq> cx + y * st" for k
    proof -
      have "proj (body j i b) k = proj b k"
        using that by (intro step2 [OF j i]) simp
      moreover have "proj b k = proj a k"
        using p that by simp
      ultimately show ?thesis by simp
    qed
    show "(\<forall>cx<Suc i. \<forall>y. lo j \<le> y \<and> y < hi j \<longrightarrow> proj (body j i b) (cx + y * st) = val cx y) \<and>
        (\<forall>k. (\<forall>cx<Suc i. \<forall>y. lo j \<le> y \<and> y < hi j \<longrightarrow> k \<noteq> cx + y * st) \<longrightarrow>
             proj (body j i b) k = proj a k)"
      using old new other by (auto simp: less_Suc_eq)
  qed
  show "\<forall>cy<Suc j. \<forall>y. lo cy \<le> y \<and> y < hi cy \<longrightarrow> (\<forall>cx<cw. proj ?row (cx + y * st) = val cx y)"
  proof (intro allI impI)
    fix cy y cx
    assume cy: "cy < Suc j" and y: "lo cy \<le> y \<and> y < hi cy" and cx: "cx < cw"
    show "proj ?row (cx + y * st) = val cx y"
    proof (cases "cy = j")
      case True
      then show ?thesis using row y cx by simp
    next
      case False
      then have lt: "cy < j" using cy by simp
      then have "hi cy \<le> lo j" using mono j by simp
      then have ylo: "y < lo j" using y by simp
      have "cx + y * st \<noteq> cx' + y' * st" if "cx' < cw" "lo j \<le> y'" for cx' y'
      proof
        assume "cx + y * st = cx' + y' * st"
        then have "y = y'" using cell_unique [of cx st cx' y y'] cx that(1) wide by simp
        then show False using ylo that(2) by simp
      qed
      then have "\<forall>cx'<max 0 cw. \<forall>y'. lo j \<le> y' \<and> y' < hi j \<longrightarrow> cx + y * st \<noteq> cx' + y' * st"
        by simp
      then have "proj ?row (cx + y * st) = proj a (cx + y * st)"
        using row by blast
      then show ?thesis using inv lt y cx by simp
    qed
  qed
qed

lemma for_inc2_0_fun:
  "for_inc2 0 n body = for_inc 0 ((n + 1) div 2) (\<lambda>k. body (2 * k))"
  by (rule ext) (rule for_inc2_0)

lemma ColorToYUV8_state_blocks:
  "ColorToYUV8_state ops G blk0 img ci fmt yP ys uP us vP vs =
     for_inc 0 ((height img + 1) div 2)
       (\<lambda>cy. for_inc 0 ((width img + 1) div 2)
          (\<lambda>cx. convert_block ops (G ci) img fmt ys us vs (2 * cy) (2 * cx)))
       \<lparr> yuvBlock = blk0, yPlane = yP, uPlane = uP, vPlane = vP \<rparr>"
  by (simp add: ColorToYUV8_state_def Let_def for_inc2_0_fun)

lemma chroma_420:
  fixes ops :: "'f float_ops"
  assumes "cx < (width img + 1) div 2" and "cy < (height img + 1) div 2"
  shows "(width img + 1) div 2 \<le> us \<Longrightarrow>
           uPlane (ColorToYUV8_state ops G blk0 img ci Subsampling420 yP ys uP us vP vs)
             (cx + cy * us) = sample420 ops (G ci) img ChanU (2 * cx) (2 * cy)"
    and "(width img + 1) div 2 \<le> vs \<Longrightarrow>
           vPlane (ColorToYUV8_state ops G blk0 img ci Subsampling420 yP ys uP us vP vs)
             (cx + cy * vs) = sample420 ops (G ci) img ChanV (2 * cx) (2 * cy)"
proof -
  let ?s0 = "\<lparr> yuvBlock = blk0, yPlane = yP, uPlane = uP, vPlane = vP \<rparr>"
  let ?body = "\<lambda>cy cx. convert_block ops (G ci) img Subsampling420 ys us vs (2 * cy) (2 * cx)"
  {
    assume wide: "(width img + 1) div 2 \<le> us"
    have "\<forall>cy < max 0 ((height img + 1) div 2). \<forall>y. cy \<le> y \<and> y < Suc cy \<longrightarrow>
            (\<forall>cx < (width img + 1) div 2.
               uPlane (for_inc 0 ((height img + 1) div 2)
                  (\<lambda>cy. for_inc 0 ((width img + 1) div 2) (?body cy)) ?s0) (cx + y * us) =
               sample420 ops (G ci) img ChanU (2 * cx) (2 * y))"
    proof (rule plane_fill [where proj = uPlane and lo = "\<lambda>cy. cy" and hi = Suc, OF _ _ _ wide])
      fix cy cx y and a :: "'f conv_state"
      assume "cy \<le> y" "y < Suc cy"
      then have "y = cy" by simp
      then show "uPlane (?body cy cx a) (cx + y * us) = sample420 ops (G ci) img ChanU (2 * cx) (2 * y)"
        by (simp add: convert_block_420)
    next
      fix cy cx k and a :: "'f conv_state"
      assume "\<forall>y. cy \<le> y \<and> y < Suc cy \<longrightarrow> k \<noteq> cx + y * us"
      then have "k \<noteq> cx + cy * us" by simp
      then show "uPlane (?body cy cx a) k = uPlane a k"
        by (simp add: convert_block_420)
    qed auto
    then show "uPlane (ColorToYUV8_state ops G blk0 img ci Subsampling420 yP ys uP us vP vs)
             (cx + cy * us) = sample420 ops (G ci) img ChanU (2 * cx) (2 * cy)"
      using assms by (simp add: ColorToYUV8_state_blocks)
  }
  {
    assume wide: "(width img + 1) div 2 \<le> vs"
    have "\<forall>cy < max 0 ((height img + 1) div 2). \<forall>y. cy \<le> y \<and> y < Suc cy \<longrightarrow>
            (\<forall>cx < (width img + 1) div 2.
               vPlane (for_inc 0 ((height img + 1) div 2)
                  (\<lambda>cy. for_inc 0 ((width img + 1) div 2) (?body cy)) ?s0) (cx + y * vs) =
               sample420 ops (G ci) img ChanV (2 * cx) (2 * y))"
    proof (rule plane_fill [where proj = vPlane and lo = "\<lambda>cy. cy" and hi = Suc, OF _ _ _ wide])
      fix cy cx y and a :: "'f conv_state"
      assume "cy \<le> y" "y < Suc cy"
      then have "y = cy" by simp
      then show "vPlane (?body cy cx a) (cx + y * vs) = sample420 ops (G ci) img ChanV (2 * cx) (2 * y)"
        by (simp add: convert_block_420)
    next
      fix cy cx k and a :: "'f conv_state"
      assume "\<forall>y. cy \<le> y \<and> y < Suc cy \<longrightarrow> k \<noteq> cx + y * vs"
      then have "k \<noteq> cx + cy * vs" by simp
      then show "vPlane (?body cy cx a) k = vPlane a k"
        by (simp add: convert_block_420)
    qed auto
    then show "vPlane (ColorToYUV8_state ops G blk0 img ci Subsampling420 yP ys uP us vP vs)
             (cx + cy * vs) = sample420 ops (G ci) img ChanV (2 * cx) (2 * cy)"
      using assms by (simp add: ColorToYUV8_state_blocks)
  }
qed

lemma chroma_422:
  fixes ops :: "'f float_ops"
  assumes "cx < (width img + 1) div 2" and "y < height img"
  shows "(width img + 1) div 2 \<le> us \<Longrightarrow>
           uPlane (ColorToYUV8_state ops G blk0 img ci Subsampling422 yP ys uP us vP vs)
             (cx + y * us) = sample422 ops (G ci) img ChanU (2 * cx) y"
    and "(width img + 1) div 2 \<le> vs \<Longrightarrow>
           vPlane (ColorToYUV8_state ops G blk0 img ci Subsampling422 yP ys uP us vP vs)
             (cx + y * vs) = sample422 ops (G ci) img ChanV (2 * cx) y"
proof -
  let ?s0 = "\<lparr> yuvBlock = blk0, yPlane = yP, uPlane = uP, vPlane = vP \<rparr>"
  let ?body = "\<lambda>cy cx. convert_block ops (G ci) img Subsampling422 ys us vs (2 * cy) (2 * cx)"
  let ?lo = "\<lambda>cy :: nat. 2 * cy" and ?hi = "\<lambda>cy :: nat. min (height img) (2 * cy + 2)"
  have cy: "y div 2 < max 0 ((height img + 1) div 2)" "?lo (y div 2) \<le> y \<and> y < ?hi (y div 2)"
    using assms(2) by auto
  {
    assume wide: "(width img + 1) div 2 \<le> us"
    have "\<forall>cy < max 0 ((height img + 1) div 2). \<forall>y. ?lo cy \<le> y \<and> y < ?hi cy \<longrightarrow>
            (\<forall>cx < (width img + 1) div 2.
               uPlane (for_inc 0 ((height img + 1) div 2)
                  (\<lambda>cy. for_inc 0 ((width img + 1) div 2) (?body cy)) ?s0) (cx + y * us) =
               sample422 ops (G ci) img ChanU (2 * cx) y)"
    proof (rule plane_fill [where proj = uPlane and lo = ?lo and hi = ?hi, OF _ _ _ wide])
      fix cy cx y and a :: "'f conv_state"
      assume "cx < (width img + 1) div 2" "?lo cy \<le> y" "y < ?hi cy"
      then have "y = 2 * cy \<or> (y = 2 * cy + 1 \<and> \<not> height img \<le> 2 * cy + 1)" and "0 < us"
        using wide by auto
      then show "uPlane (?body cy cx a) (cx + y * us) = sample422 ops (G ci) img ChanU (2 * cx) y"
        by (auto simp: convert_block_422)
    next
      fix cy cx k and a :: "'f conv_state"
      assume cyh: "cy < (height img + 1) div 2"
        and ne: "\<forall>y. ?lo cy \<le> y \<and> y < ?hi cy \<longrightarrow> k \<noteq> cx + y * us"
      have "k \<noteq> cx + 2 * cy * us"
        using ne [rule_format, of "2 * cy"] cyh by auto
      moreover have "\<not> height img \<le> 2 * cy + 1 \<longrightarrow> k \<noteq> cx + (2 * cy + 1) * us"
        using ne [rule_format, of "2 * cy + 1"] by auto
      ultimately have "k \<noteq> cx + 2 * cy * us"
        and "\<not> height img \<le> 2 * cy + 1 \<longrightarrow> k \<noteq> cx + (2 * cy + 1) * us"
        by blast+
      then show "uPlane (?body cy cx a) k = uPlane a k"
        by (auto simp: convert_block_422)
    qed auto
    then show "uPlane (ColorToYUV8_state ops G blk0 img ci Subsampling422 yP ys uP us vP vs)
             (cx + y * us) = sample422 ops (G ci) img ChanU (2 * cx) y"
      using assms(1) cy unfolding ColorToYUV8_state_blocks by blast
  }
  {
    assume wide: "(width img + 1) div 2 \<le> vs"
    have "\<forall>cy < max 0 ((height img + 1) div 2). \<forall>y. ?lo cy \<le> y \<and> y < ?hi cy \<longrightarrow>
            (\<forall>cx < (width img + 1) div 2.
               vPlane (for_inc 0 ((height img + 1) div 2)
                  (\<lambda>cy. for_inc 0 ((width img + 1) div 2) (?body cy)) ?s0) (cx + y * vs) =
               sample422 ops (G ci) img ChanV (2 * cx) y)"
    proof (rule plane_fill [where proj = vPlane and lo = ?lo and hi = ?hi, OF _ _ _ wide])
      fix cy cx y and a :: "'f conv_state"
      assume "cx < (width img + 1) div 2" "?lo cy \<le> y" "y < ?hi cy"
      then have "y = 2 * cy \<or> (y = 2 * cy + 1 \<and> \<not> height img \<le> 2 * cy + 1)" and "0 < vs"
        using wide by auto
      then show "vPlane (?body cy cx a) (cx + y * vs) = sample422 ops (G ci) img ChanV (2 * cx) y"
        by (auto simp: convert_block_422)
    next
      fix cy cx k and a :: "'f conv_state"
      assume cyh: "cy < (height img + 1) div 2"
        and ne: "\<forall>y. ?lo cy \<le> y \<and> y < ?hi cy \<longrightarrow> k \<noteq> cx + y * vs"
      have "k \<noteq> cx + 2 * cy * vs"
        using ne [rule_format, of "2 * cy"] cyh by auto
      moreover have "\<not> height img \<le> 2 * cy + 1 \<longrightarrow> k \<noteq> cx + (2 * cy + 1) * vs"
        using ne [rule_format, of "2 * cy + 1"] by auto
      ultimately have "k \<noteq> cx + 2 * cy * vs"
        and "\<not> height img \<le> 2 * cy + 1 \<longrightarrow> k \<noteq> cx + (2 * cy + 1) * vs"
        by blast+
      then show "vPlane (?body cy cx a) k = vPlane a k"
        by (auto simp: convert_block_422)
    qed auto
    then show "vPlane (ColorToYUV8_state ops G blk0 img ci Subsampling422 yP ys uP us vP vs)
             (cx + y * vs) = sample422 ops (G ci) img ChanV (2 * cx) y"
      using assms(1) cy unfolding ColorToYUV8_state_blocks by blast
  }
qed

lemma block_extent_card:
  assumes "2 * c < n"
  shows "block_extent n (2 * c) = card {x. x < n \<and> x div 2 = c}"
proof (cases "n \<le> 2 * c + 1")
  case True
  then have "{x. x < n \<and> x div 2 = c} = {2 * c}" using assms by auto
  then show ?thesis using True by (simp add: block_extent_def)
next
  case False
  then have "{x. x < n \<and> x div 2 = c} = {2 * c, 2 * c + 1}" by auto
  then show ?thesis using False by (simp add: block_extent_def)
qed

lemma chroma_sums_single:
  "chroma_sums ops co img x0 y0 (Suc 0) (Suc 0) =
     (f_add ops (f_of_nat ops 0) (blk_u (pixel_yuv ops co img x0 y0)),
      f_add ops (f_of_nat ops 0) (blk_v (pixel_yuv ops co img x0 y0)))"
  by (simp add: chroma_sums_def for_inc_0_1)

text \<open>
  Claim C4. Let the chroma planes be at least as wide as the subsampled raster. Under
  4:2:0 the chroma sample that \<open>ColorToYUV8\<close> leaves at \<open>(cx, cy)\<close> is the quantised
  quotient of the chroma sum of the block by the product of the block's extents, which
  are the numbers of raster columns and rows inside the block (one on a truncated axis,
  two otherwise), never a fixed 4; under 4:2:2 the sample at \<open>(cx, y)\<close> is the quotient
  of the row's chroma sum by the block's width. In particular, on a raster of odd width
  and odd height the corner sample is the quantised chroma value of the single corner
  pixel, provided adding that value to zero and dividing it by one are exact.
\<close>

theorem boundary_blocks_average_present_samples:
  fixes ops :: "'f float_ops"
  assumes cx: "cx < (width img + 1) div 2"
    and us: "(width img + 1) div 2 \<le> us" and vs: "(width img + 1) div 2 \<le> vs"
  shows "block_extent (width img) (2 * cx) = card {x. x < width img \<and> x div 2 = cx}
    \<and> (cy < (height img + 1) div 2 \<longrightarrow>
         block_extent (height img) (2 * cy) = card {y. y < height img \<and> y div 2 = cy}
         \<and> (let bw = block_extent (width img) (2 * cx);
                 bh = block_extent (height img) (2 * cy);
                 sumUV = chroma_sums ops (G ci) img (2 * cx) (2 * cy) bw bh;
                 yuv = ColorToYUV8 ops G blk0 img ci Subsampling420 yP ys uP us vP vs
             in fst (snd yuv) (cx + cy * us) =
                  yuvToUNorm ops ChanU (f_div ops (fst sumUV) (f_of_nat ops (bw * bh)))
              \<and> snd (snd yuv) (cx + cy * vs) =
                  yuvToUNorm ops ChanV (f_div ops (snd sumUV) (f_of_nat ops (bw * bh)))))
    \<and> (y < height img \<longrightarrow>
         (let bw = block_extent (width img) (2 * cx);
              sumUV = chroma_sums ops (G ci) img (2 * cx) y bw 1;
              yuv = ColorToYUV8 ops G blk0 img ci Subsampling422 yP ys uP us vP vs
          in fst (snd yuv) (cx + y * us) =
               yuvToUNorm ops ChanU (f_div ops (fst sumUV) (f_of_nat ops bw))
           \<and> snd (snd yuv) (cx + y * vs) =
               yuvToUNorm ops ChanV (f_div ops (snd sumUV) (f_of_nat ops bw))))
    \<and> (width img = 2 * cx + 1 \<and> height img = 2 * cy + 1
         \<and> exact_at ops (blk_u (pixel_yuv ops (G ci) img (2 * cx) (2 * cy)))
         \<and> exact_at ops (blk_v (pixel_yuv ops (G ci) img (2 * cx) (2 * cy))) \<longrightarrow>
         (let yuv = ColorToYUV8 ops G blk0 img ci Subsampling420 yP ys uP us vP vs
          in fst (snd yuv) (cx + cy * us) =
               yuvToUNorm ops ChanU (blk_u (pixel_yuv ops (G ci) img (2 * cx) (2 * cy)))
           \<and> snd (snd yuv) (cx + cy * vs) =
               yuvToUNorm ops ChanV (blk_v (pixel_yuv ops (G ci) img (2 * cx) (2 * cy)))))"
proof (intro conjI impI)
  show "block_extent (width img) (2 * cx) = card {x. x < width img \<and> x div 2 = cx}"
    using cx by (intro block_extent_card) arith
next
  assume "cy < (height img + 1) div 2"
  then show "block_extent (height img) (2 * cy) = card {y. y < height img \<and> y div 2 = cy}"
    by (intro block_extent_card) arith
next
  assume cy: "cy < (height img + 1) div 2"
  show "let bw = block_extent (width img) (2 * cx);
            bh = block_extent (height img) (2 * cy);
            sumUV = chroma_sums ops (G ci) img (2 * cx) (2 * cy) bw bh;
            yuv = ColorToYUV8 ops G blk0 img ci Subsampling420 yP ys uP us vP vs
        in fst (snd yuv) (cx + cy * us) =
             yuvToUNorm ops ChanU (f_div ops (fst sumUV) (f_of_nat ops (bw * bh)))
         \<and> snd (snd yuv) (cx + cy * vs) =
             yuvToUNorm ops ChanV (f_div ops (snd sumUV) (f_of_nat ops (bw * bh)))"
    by (simp add: chroma_420(1) [OF cx cy us] chroma_420(2) [OF cx cy vs]
        ColorToYUV8_def Let_def sample420_def)
next
  assume y: "y < height img"
  show "let bw = block_extent (width img) (2 * cx);
            sumUV = chroma_sums ops (G ci) img (2 * cx) y bw 1;
            yuv = ColorToYUV8 ops G blk0 img ci Subsampling422 yP ys uP us vP vs
        in fst (snd yuv) (cx + y * us) =
             yuvToUNorm ops ChanU (f_div ops (fst sumUV) (f_of_nat ops bw))
         \<and> snd (snd yuv) (cx + y * vs) =
             yuvToUNorm ops ChanV (f_div ops (snd sumUV) (f_of_nat ops bw))"
    by (simp add: chroma_422(1) [OF cx y us] chroma_422(2) [OF cx y vs]
        ColorToYUV8_def Let_def sample422_def)
next
  assume c: "width img = 2 * cx + 1 \<and> height img = 2 * cy + 1
         \<and> exact_at ops (blk_u (pixel_yuv ops (G ci) img (2 * cx) (2 * cy)))
         \<and> exact_at ops (blk_v (pixel_yuv ops (G ci) img (2 * cx) (2 * cy)))"
  then have cy: "cy < (height img + 1) div 2" by simp
  have e: "block_extent (width img) (2 * cx) = Suc 0" "block_extent (height img) (2 * cy) = Suc 0"
    using c by (simp_all add: block_extent_def)
  show "let yuv = ColorToYUV8 ops G blk0 img ci Subsampling420 yP ys uP us vP vs
        in fst (snd yuv) (cx + cy * us) =
             yuvToUNorm ops ChanU (blk_u (pixel_yuv ops (G ci) img (2 * cx) (2 * cy)))
         \<and> snd (snd yuv) (cx + cy * vs) =
             yuvToUNorm ops ChanV (blk_v (pixel_yuv ops (G ci) img (2 * cx) (2 * cy)))"
    using c
    by (simp add: chroma_420(1) [OF cx cy us] chroma_420(2) [OF cx cy vs]
        ColorToYUV8_def Let_def sample420_def block_extent_def chroma_sums_single
        exact_at_def)
qed

lemma corner_pixel_values:
  "yuvToUNorm exact_ops ChanU (blk_u (pixel_yuv exact_ops (bt601 ()) img3x3 2 2)) = 123"
  "yuvToUNorm exact_ops ChanV (blk_v (pixel_yuv exact_ops (bt601 ()) img3x3 2 2)) = 132"
  by code_simp+

lemma corner_pixel_quarter:
  "yuvToUNorm exact_ops ChanU
     (f_div exact_ops (blk_u (pixel_yuv exact_ops (bt601 ()) img3x3 2 2)) (f_of_nat exact_ops 4))
     = 126"
  by code_simp

theorem boundary_blocks_average_present_samples_witness:
  "fst (snd (ColorToYUV8 exact_ops bt601 zero_block img3x3 () Subsampling420
               zero_buffer 16 zero_buffer 16 zero_buffer 16)) (1 + 1 * 16) = 123
   \<and> snd (snd (ColorToYUV8 exact_ops bt601 zero_block img3x3 () Subsampling420
               zero_buffer 16 zero_buffer 16 zero_buffer 16)) (1 + 1 * 16) = 132
   \<and> yuvToUNorm exact_ops ChanU
        (f_div exact_ops (blk_u (pixel_yuv exact_ops (bt601 ()) img3x3 2 2))
           (f_of_nat exact_ops 4)) = 126"
proof -
  have h: "(1::nat) < (width img3x3 + 1) div 2" "(width img3x3 + 1) div 2 \<le> 16"
    "width img3x3 = 2 * 1 + 1" "height img3x3 = 2 * 1 + 1"
    by (simp_all add: img3x3_def)
  have e: "exact_at exact_ops a" for a
    by (simp add: exact_at_def exact_ops_def)
  have "fst (snd (ColorToYUV8 exact_ops bt601 zero_block img3x3 () Subsampling420
               zero_buffer 16 zero_buffer 16 zero_buffer 16)) (1 + 1 * 16) =
          yuvToUNorm exact_ops ChanU (blk_u (pixel_yuv exact_ops (bt601 ()) img3x3 (2 * 1) (2 * 1)))
      \<and> snd (snd (ColorToYUV8 exact_ops bt601 zero_block img3x3 () Subsampling420
               zero_buffer 16 zero_buffer 16 zero_buffer 16)) (1 + 1 * 16) =
          yuvToUNorm exact_ops ChanV (blk_v (pixel_yuv exact_ops (bt601 ()) img3x3 (2 * 1) (2 * 1)))"
    using boundary_blocks_average_present_samples [where cx = 1 and cy = 1 and y = 2 and img = img3x3 and us = 16 and vs = 16
        and ops = exact_ops and G = bt601 and ci = "()" and ?blk0.0 = zero_block
        and yP = zero_buffer and ys = 16 and uP = zero_buffer and vP = zero_buffer,
        OF h(1) h(2) h(2), THEN conjunct2, THEN conjunct2, THEN conjunct2] h(3,4) e
    by (simp only: Let_def simp_thms)
  then show ?thesis
    using corner_pixel_values corner_pixel_quarter by simp
qed

section \<open>Luma and the subsampling mode\<close>

text \<open>
  When every iteration of two loops over the same range preserves a relation between
  their states and one iteration establishes it from any pair of states, the relation
  holds between the final states, whatever the initial ones.
\<close>

lemma for_inc_establish:
  assumes pres: "\<And>j a b. i \<le> j \<Longrightarrow> j < n \<Longrightarrow> R a b \<Longrightarrow> R (f j a) (g j b)"
    and est: "\<And>a b. R (f m a) (g m b)"
    and m: "i \<le> m" "m < n"
  shows "R (for_inc i n f s) (for_inc i n g t)"
proof -
  have "m < max i n \<longrightarrow> R (for_inc i n f s) (for_inc i n g t)"
  proof (rule for_inc_rel [where R = "\<lambda>j a b. m < j \<longrightarrow> R a b"])
    show "m < i \<longrightarrow> R s t" using m by simp
  next
    fix j a b
    assume j: "i \<le> j" "j < n" and r: "m < j \<longrightarrow> R a b"
    show "m < Suc j \<longrightarrow> R (f j a) (g j b)"
    proof
      assume "m < Suc j"
      then consider "j = m" | "m < j" by linarith
      then show "R (f j a) (g j b)"
      proof cases
        case 1
        then show ?thesis using est by simp
      next
        case 2
        then show ?thesis using pres j r by simp
      qed
    qed
  qed
  then show ?thesis using m by simp
qed

lemma luma_pixel_row_agree:
  fixes a b :: "'f conv_state"
  assumes "yPlane a k = yPlane b k"
  shows "yPlane (for_inc 0 bw (convert_pixel ops co img f1 ys us1 vs1 iX iY bY) a) k =
         yPlane (for_inc 0 bw (convert_pixel ops co img f2 ys us2 vs2 iX iY bY) b) k"
  by (rule for_inc_rel_simple [where R = "\<lambda>(a :: 'f conv_state) (b :: 'f conv_state).
        yPlane a k = yPlane b k", OF assms])
    (simp add: convert_pixel_eq)

lemma luma_pixel_row_written:
  fixes a b :: "'f conv_state"
  assumes "bX < bw"
  shows "yPlane (for_inc 0 bw (convert_pixel ops co img f1 ys us1 vs1 iX iY bY) a)
           (iX + bX + (iY + bY) * ys) =
         yPlane (for_inc 0 bw (convert_pixel ops co img f2 ys us2 vs2 iX iY bY) b)
           (iX + bX + (iY + bY) * ys)"
proof (rule for_inc_establish [where m = bX and R = "\<lambda>(a :: 'f conv_state) (b :: 'f conv_state).
        yPlane a (iX + bX + (iY + bY) * ys) = yPlane b (iX + bX + (iY + bY) * ys)"])
  fix j and a b :: "'f conv_state"
  assume "yPlane a (iX + bX + (iY + bY) * ys) = yPlane b (iX + bX + (iY + bY) * ys)"
  then show "yPlane (convert_pixel ops co img f1 ys us1 vs1 iX iY bY j a) (iX + bX + (iY + bY) * ys) =
        yPlane (convert_pixel ops co img f2 ys us2 vs2 iX iY bY j b) (iX + bX + (iY + bY) * ys)"
    by (simp add: convert_pixel_eq)
next
  fix a b :: "'f conv_state"
  show "yPlane (convert_pixel ops co img f1 ys us1 vs1 iX iY bY bX a) (iX + bX + (iY + bY) * ys) =
        yPlane (convert_pixel ops co img f2 ys us2 vs2 iX iY bY bX b) (iX + bX + (iY + bY) * ys)"
    by (simp add: convert_pixel_eq)
qed (use assms in simp_all)

lemma yPlane_convert_block:
  fixes s :: "'f conv_state"
  shows "yPlane (convert_block ops co img f ys us vs iY iX s) =
     yPlane (for_inc 0 (block_extent (height img) iY)
               (\<lambda>bY. for_inc 0 (block_extent (width img) iX)
                  (convert_pixel ops co img f ys us vs iX iY bY)) s)"
  by (simp add: convert_block_alt Let_def yPlane_subsample422)

lemma luma_block_agree:
  fixes a b :: "'f conv_state"
  assumes "yPlane a k = yPlane b k"
  shows "yPlane (convert_block ops co img f1 ys us1 vs1 iY iX a) k =
         yPlane (convert_block ops co img f2 ys us2 vs2 iY iX b) k"
  unfolding yPlane_convert_block
  by (rule for_inc_rel_simple [where R = "\<lambda>(a :: 'f conv_state) (b :: 'f conv_state).
        yPlane a k = yPlane b k", OF assms])
    (rule luma_pixel_row_agree)

lemma luma_block_written:
  fixes a b :: "'f conv_state"
  assumes "bX < block_extent (width img) iX" and "bY < block_extent (height img) iY"
  shows "yPlane (convert_block ops co img f1 ys us1 vs1 iY iX a) (iX + bX + (iY + bY) * ys) =
         yPlane (convert_block ops co img f2 ys us2 vs2 iY iX b) (iX + bX + (iY + bY) * ys)"
  unfolding yPlane_convert_block
proof (rule for_inc_establish [where m = bY and R = "\<lambda>(a :: 'f conv_state) (b :: 'f conv_state).
        yPlane a (iX + bX + (iY + bY) * ys) = yPlane b (iX + bX + (iY + bY) * ys)"])
  fix j and a b :: "'f conv_state"
  assume "yPlane a (iX + bX + (iY + bY) * ys) = yPlane b (iX + bX + (iY + bY) * ys)"
  then show "yPlane (for_inc 0 (block_extent (width img) iX)
                 (convert_pixel ops co img f1 ys us1 vs1 iX iY j) a) (iX + bX + (iY + bY) * ys) =
        yPlane (for_inc 0 (block_extent (width img) iX)
                 (convert_pixel ops co img f2 ys us2 vs2 iX iY j) b) (iX + bX + (iY + bY) * ys)"
    by (rule luma_pixel_row_agree)
next
  fix a b :: "'f conv_state"
  show "yPlane (for_inc 0 (block_extent (width img) iX)
                 (convert_pixel ops co img f1 ys us1 vs1 iX iY bY) a) (iX + bX + (iY + bY) * ys) =
        yPlane (for_inc 0 (block_extent (width img) iX)
                 (convert_pixel ops co img f2 ys us2 vs2 iX iY bY) b) (iX + bX + (iY + bY) * ys)"
    by (rule luma_pixel_row_written [OF assms(1)])
qed (use assms in simp_all)

lemma luma_block_of_pixel:
  fixes a b :: "'f conv_state"
  assumes "x < width img" and "y < height img"
  shows "yPlane (convert_block ops co img f1 ys us1 vs1 (2 * (y div 2)) (2 * (x div 2)) a)
           (x + y * ys) =
         yPlane (convert_block ops co img f2 ys us2 vs2 (2 * (y div 2)) (2 * (x div 2)) b)
           (x + y * ys)"
proof -
  have bx: "x mod 2 < block_extent (width img) (2 * (x div 2))"
    using assms(1) by (auto simp: block_extent_def) presburger
  have by': "y mod 2 < block_extent (height img) (2 * (y div 2))"
    using assms(2) by (auto simp: block_extent_def) presburger
  have "2 * (x div 2) + x mod 2 = x" "2 * (y div 2) + y mod 2 = y" by simp_all
  then show ?thesis
    using luma_block_written [OF bx by', of ops co f1 ys us1 vs1 a f2 us2 vs2 b] by simp
qed

text \<open>
  Claim C3. Fix a raster and the color conversion info, and run \<open>ColorToYUV8\<close> twice,
  each time with a subsampling mode of its own (4:2:0, 4:2:2, 4:4:4 or any other), into
  planes of its own: every plane may start with any content, the chroma strides may
  differ, and so may the uninitialised local array. With the same luma stride, the two
  luma planes hold the same byte at every pixel of the raster.
\<close>

theorem luma_same_in_every_mode:
  fixes ops :: "'f float_ops"
  assumes "x < width img" and "y < height img"
  shows "fst (ColorToYUV8 ops G blk1 img ci f1 yP1 ys uP1 us1 vP1 vs1) (x + y * ys) =
         fst (ColorToYUV8 ops G blk2 img ci f2 yP2 ys uP2 us2 vP2 vs2) (x + y * ys)"
proof -
  let ?R = "\<lambda>(a :: 'f conv_state) (b :: 'f conv_state). yPlane a (x + y * ys) = yPlane b (x + y * ys)"
  let ?row1 = "\<lambda>cy. for_inc 0 ((width img + 1) div 2)
                 (\<lambda>cx. convert_block ops (G ci) img f1 ys us1 vs1 (2 * cy) (2 * cx))"
  let ?row2 = "\<lambda>cy. for_inc 0 ((width img + 1) div 2)
                 (\<lambda>cx. convert_block ops (G ci) img f2 ys us2 vs2 (2 * cy) (2 * cx))"
  have cx: "x div 2 < (width img + 1) div 2" and cy: "y div 2 < (height img + 1) div 2"
    using assms by arith+
  have pres: "?R (?row1 cy a) (?row2 cy b)" if "?R a b" for cy a b
    by (rule for_inc_rel_simple [where R = ?R, OF that]) (rule luma_block_agree)
  have est: "?R (?row1 (y div 2) a) (?row2 (y div 2) b)" for a b
  proof (rule for_inc_establish [where m = "x div 2" and R = ?R])
    fix j and a b :: "'f conv_state"
    assume "?R a b"
    then show "?R (convert_block ops (G ci) img f1 ys us1 vs1 (2 * (y div 2)) (2 * j) a)
                  (convert_block ops (G ci) img f2 ys us2 vs2 (2 * (y div 2)) (2 * j) b)"
      by (rule luma_block_agree)
  next
    fix a b :: "'f conv_state"
    show "?R (convert_block ops (G ci) img f1 ys us1 vs1 (2 * (y div 2)) (2 * (x div 2)) a)
             (convert_block ops (G ci) img f2 ys us2 vs2 (2 * (y div 2)) (2 * (x div 2)) b)"
      by (rule luma_block_of_pixel [OF assms])
  qed (use cx in simp_all)
  have "?R (for_inc 0 ((height img + 1) div 2) ?row1
              \<lparr> yuvBlock = blk1, yPlane = yP1, uPlane = uP1, vPlane = vP1 \<rparr>)
           (for_inc 0 ((height img + 1) div 2) ?row2
              \<lparr> yuvBlock = blk2, yPlane = yP2, uPlane = uP2, vPlane = vP2 \<rparr>)"
  proof (rule for_inc_establish [where m = "y div 2" and R = ?R])
    fix j and a b :: "'f conv_state"
    assume "?R a b"
    then show "?R (?row1 j a) (?row2 j b)" by (rule pres)
  next
    fix a b :: "'f conv_state"
    show "?R (?row1 (y div 2) a) (?row2 (y div 2) b)" by (rule est)
  qed (use cy in simp_all)
  then show ?thesis
    by (simp add: ColorToYUV8_def Let_def ColorToYUV8_state_blocks)
qed

theorem luma_same_in_every_mode_witness:
  "fst (ColorToYUV8 exact_ops bt601 zero_block img3x3 () Subsampling420
          zero_buffer 16 zero_buffer 16 zero_buffer 16) (2 + 2 * 16) =
     fst (ColorToYUV8 exact_ops bt601 zero_block img3x3 () Subsampling444
          (img_planes (blank_image AOM_IMG_FMT_I444 3 3) AOM_PLANE_Y) 16
          (img_planes (blank_image AOM_IMG_FMT_I444 3 3) AOM_PLANE_U) 32
          (img_planes (blank_image AOM_IMG_FMT_I444 3 3) AOM_PLANE_V) 32) (2 + 2 * 16)
   \<and> fst (ColorToYUV8 exact_ops bt601 zero_block img3x3 () Subsampling422
          zero_buffer 16 zero_buffer 16 zero_buffer 16) (2 + 2 * 16) =
     fst (ColorToYUV8 exact_ops bt601 zero_block img3x3 () Subsampling444
          (img_planes (blank_image AOM_IMG_FMT_I444 3 3) AOM_PLANE_Y) 16
          (img_planes (blank_image AOM_IMG_FMT_I444 3 3) AOM_PLANE_U) 32
          (img_planes (blank_image AOM_IMG_FMT_I444 3 3) AOM_PLANE_V) 32) (2 + 2 * 16)"
proof -
  have h: "(2::nat) < width img3x3" "(2::nat) < height img3x3"
    by (simp_all add: img3x3_def)
  show ?thesis
    using luma_same_in_every_mode [OF h, where ops = exact_ops and G = bt601 and ci = "()"
        and ?blk1.0 = zero_block and ?blk2.0 = zero_block and ?f1.0 = Subsampling420
        and ?f2.0 = Subsampling444 and ?yP1.0 = zero_buffer and ys = 16
        and ?uP1.0 = zero_buffer and ?us1.0 = 16 and ?vP1.0 = zero_buffer and ?vs1.0 = 16
        and ?yP2.0 = "img_planes (blank_image AOM_IMG_FMT_I444 3 3) AOM_PLANE_Y"
        and ?uP2.0 = "img_planes (blank_image AOM_IMG_FMT_I444 3 3) AOM_PLANE_U"
        and ?us2.0 = 32
        and ?vP2.0 = "img_planes (blank_image AOM_IMG_FMT_I444 3 3) AOM_PLANE_V"
        and ?vs2.0 = 32]
      luma_same_in_every_mode [OF h, where ops = exact_ops and G = bt601 and ci = "()"
        and ?blk1.0 = zero_block and ?blk2.0 = zero_block and ?f1.0 = Subsampling422
        and ?f2.0 = Subsampling444 and ?yP1.0 = zero_buffer and ys = 16
        and ?uP1.0 = zero_buffer and ?us1.0 = 16 and ?vP1.0 = zero_buffer and ?vs1.0 = 16
        and ?yP2.0 = "img_planes (blank_image AOM_IMG_FMT_I444 3 3) AOM_PLANE_Y"
        and ?uP2.0 = "img_planes (blank_image AOM_IMG_FMT_I444 3 3) AOM_PLANE_U"
        and ?us2.0 = 32
        and ?vP2.0 = "img_planes (blank_image AOM_IMG_FMT_I444 3 3) AOM_PLANE_V"
        and ?vs2.0 = 32]
    by simp
qed

end
